theory Spec2Isabelle
  imports Complex_Main "HOL-Library.Char_ord" "HOL-Library.List_Lexorder"
begin

section \<open>Python string primitives\<close>

text \<open>
  A line of source text is a \<^typ>\<open>string\<close>: a list of characters. HOL characters are
  the code points below 256, so the model covers lines written in that range.
  \<open>is_space\<close> is Python's \<open>str.isspace\<close> on one character of that range; the same
  test decides what \<open>str.strip\<close> removes and what the pattern \<open>\s\<close> matches.
\<close>

definition is_space :: "char \<Rightarrow> bool" where
  "is_space c =
     (let n = (of_char c :: nat)
      in (9 \<le> n \<and> n \<le> 13) \<or> (28 \<le> n \<and> n \<le> 32) \<or> n = 133 \<or> n = 160)"

definition lstrip :: "string \<Rightarrow> string" where
  "lstrip s = dropWhile is_space s"

definition rstrip :: "string \<Rightarrow> string" where
  "rstrip s = rev (dropWhile is_space (rev s))"

definition strip :: "string \<Rightarrow> string" where
  "strip s = rstrip (lstrip s)"

text \<open>\<open>startswith s p\<close> is \<open>s.startswith(p)\<close>, \<open>endswith s p\<close> is \<open>s.endswith(p)\<close>.\<close>

definition startswith :: "string \<Rightarrow> string \<Rightarrow> bool" where
  "startswith s p = (take (length p) s = p)"

definition endswith :: "string \<Rightarrow> string \<Rightarrow> bool" where
  "endswith s p = (length p \<le> length s \<and> drop (length s - length p) s = p)"

text \<open>\<open>py_in sub s\<close> is the substring test \<open>sub in s\<close>.\<close>

fun py_in :: "string \<Rightarrow> string \<Rightarrow> bool" where
  "py_in sub [] = (sub = [])"
| "py_in sub (c # cs) = (startswith (c # cs) sub \<or> py_in sub cs)"

text \<open>\<open>any_in ops s\<close> is \<open>any(op in s for op in ops)\<close>.\<close>

definition any_in :: "string list \<Rightarrow> string \<Rightarrow> bool" where
  "any_in ops s = list_ex (\<lambda>op. py_in op s) ops"

text \<open>
  The patterns that \<open>_transform_ish_constructs\<close> builds with \<open>re.escape\<close> are
  sequences of \<open>\s*\<close>, \<open>\s+\<close> and literal text between \<open>^\<close> and \<open>$\<close>.
  \<open>rx_match\<close> decides whether \<open>re.match\<close> finds a match of such a sequence: some
  split of the text fits it. The final \<open>$\<close> accepts the end of the text, or a single
  newline before it.
\<close>

datatype rx = Ws0 | Ws1 | Lit string

fun rx_match :: "rx list \<Rightarrow> string \<Rightarrow> bool" where
  "rx_match [] s = (s = [] \<or> s = [CHR 0x0A])"
| "rx_match (Lit l # r) s = (startswith s l \<and> rx_match r (drop (length l) s))"
| "rx_match (Ws0 # r) [] = rx_match r []"
| "rx_match (Ws0 # r) (c # cs) = ((is_space c \<and> rx_match (Ws0 # r) cs) \<or> rx_match r (c # cs))"
| "rx_match (Ws1 # r) [] = False"
| "rx_match (Ws1 # r) (c # cs) = (is_space c \<and> rx_match (Ws0 # r) cs)"

section \<open>The construct matchers\<close>

text \<open>
  \<open>transformer.py\<close> imports \<open>match_python_construct\<close>, \<open>find_ish_constructs\<close> and
  \<open>find_welp_constructs\<close> from \<open>kinda.grammar.python.matchers\<close>. The transformer is
  modelled over any three such functions, collected in a record.

  \<^item> \<open>match_python_construct\<close> returns the key of the construct a stripped line is the
    header of, with the captured groups (a group that took no part in the match is
    \<open>None\<close>), or no key at all.
  \<^item> \<open>find_ish_constructs\<close> and \<open>find_welp_constructs\<close> return the inline matches of a
    text in the order of their positions: the kind of construct, the match (its
    groups, from group 1 on; the patterns of \<open>~ish\<close> and \<open>~welp\<close> have no optional
    group), and the start and end offsets of the match.
\<close>

type_synonym inline_construct = "string \<times> string list \<times> nat \<times> nat"

record matchers =
  match_python_construct :: "string \<Rightarrow> (string \<times> string option list) option"
  find_ish_constructs :: "string \<Rightarrow> inline_construct list"
  find_welp_constructs :: "string \<Rightarrow> inline_construct list"

text \<open>
  \<open>group m i\<close> is \<open>match.group(i)\<close> for \<open>i \<ge> 1\<close>; \<open>None\<close> stands for the
  \<open>IndexError\<close> of a group the match does not have.
\<close>

definition group :: "string list \<Rightarrow> nat \<Rightarrow> string option" where
  "group m i = (if 1 \<le> i \<and> i \<le> length m then Some (m ! (i - 1)) else None)"

section \<open>Inline \<open>~ish\<close> constructs\<close>

text \<open>
  The set \<open>used_helpers\<close> is a module-level variable of \<open>transformer.py\<close>. Every
  function that adds to it takes the set and returns it updated.
\<close>

type_synonym helpers = "string set"

definition is_standalone_assignment :: "string \<Rightarrow> string \<Rightarrow> string \<Rightarrow> bool" where
  "is_standalone_assignment stripped_line left_val right_val =
     (\<not> any_in [''+'', ''-'', ''*'', ''/'', ''='', ''('', '')'', ''['', '']'', '',''] stripped_line
      \<or> rx_match [Ws0, Lit left_val, Ws0, Lit ''~ish'', Ws1, Lit right_val, Ws0] stripped_line)"

definition is_in_conditional :: "string \<Rightarrow> bool" where
  "is_in_conditional stripped_line =
     (startswith stripped_line ''if ''
      \<or> startswith stripped_line ''elif ''
      \<or> startswith stripped_line ''while ''
      \<or> py_in '' if '' stripped_line
      \<or> py_in '' and '' stripped_line
      \<or> py_in '' or '' stripped_line
      \<or> any_in [''+'', ''-'', ''*'', ''/'', ''=='', ''!='', ''<'', ''>'', ''<='', ''>='']
            stripped_line)"

text \<open>
  One iteration of the loop of \<open>_transform_ish_constructs\<close>, up to the replacement
  text: \<open>None\<close> is a \<open>continue\<close> (a malformed match or an unknown kind), and the
  helpers are those added before it.
\<close>

definition ish_replacement ::
  "string \<Rightarrow> inline_construct \<Rightarrow> helpers \<Rightarrow> string option \<times> helpers" where
  "ish_replacement line c used =
     (case c of (construct_type, m, start_pos, end_pos) \<Rightarrow>
        if construct_type = ''ish_value'' then
          (case group m 1 of
             None \<Rightarrow> (None, insert ''ish_value'' used)
           | Some val \<Rightarrow> (Some (''ish_value('' @ val @ '')''), insert ''ish_value'' used))
        else if construct_type = ''ish_comparison'' then
          (case group m 1 of
             None \<Rightarrow> (None, used)
           | Some left_val \<Rightarrow>
              (case group m 2 of
                 None \<Rightarrow> (None, used)
               | Some right_val \<Rightarrow>
                  (let stripped_line = strip line in
                   if is_standalone_assignment stripped_line left_val right_val
                      \<and> \<not> is_in_conditional stripped_line
                   then (Some (left_val @ '' = ish_value('' @ left_val @ '', '' @ right_val @ '')''),
                         insert ''ish_value'' used)
                   else (Some (''ish_comparison('' @ left_val @ '', '' @ right_val @ '')''),
                         insert ''ish_comparison'' used))))
        else if construct_type = ''ish_comparison_with_ish_value'' then
          (case group m 1 of
             None \<Rightarrow> (None, insert ''ish_value'' (insert ''ish_comparison'' used))
           | Some left_val \<Rightarrow>
              (case group m 2 of
                 None \<Rightarrow> (None, insert ''ish_value'' (insert ''ish_comparison'' used))
               | Some right_val \<Rightarrow>
                  (Some (''ish_comparison('' @ left_val @ '', ish_value('' @ right_val @ ''))''),
                   insert ''ish_value'' (insert ''ish_comparison'' used))))
        else (None, used))"

text \<open>
  \<open>splice t start_pos end_pos r\<close> is \<open>t[:start_pos] + r + t[end_pos:]\<close>.
\<close>

definition splice :: "string \<Rightarrow> nat \<Rightarrow> nat \<Rightarrow> string \<Rightarrow> string" where
  "splice t start_pos end_pos r = take start_pos t @ r @ drop end_pos t"

fun ish_loop :: "string \<Rightarrow> inline_construct list \<Rightarrow> string \<Rightarrow> helpers \<Rightarrow> string \<times> helpers" where
  "ish_loop line [] transformed_line used = (transformed_line, used)"
| "ish_loop line (c # cs) transformed_line used =
     (case ish_replacement line c used of
        (None, used') \<Rightarrow> ish_loop line cs transformed_line used'
      | (Some replacement, used') \<Rightarrow>
          ish_loop line cs
            (splice transformed_line (fst (snd (snd c))) (snd (snd (snd c))) replacement) used')"

definition transform_ish_constructs :: "matchers \<Rightarrow> string \<Rightarrow> helpers \<Rightarrow> string \<times> helpers" where
  "transform_ish_constructs M line used =
     (let ish_constructs = find_ish_constructs M line in
      if ish_constructs = [] then (line, used)
      else ish_loop line (rev ish_constructs) line used)"

section \<open>Inline \<open>~welp\<close> constructs\<close>

text \<open>
  One iteration of the loop of \<open>_transform_welp_constructs\<close>, up to the replacement
  text. Both groups are read before either is rewritten, so a match without its
  second group adds only \<open>welp_fallback\<close>.
\<close>

definition welp_replacement ::
  "matchers \<Rightarrow> inline_construct \<Rightarrow> helpers \<Rightarrow> string option \<times> helpers" where
  "welp_replacement M c used =
     (case c of (construct_type, m, start_pos, end_pos) \<Rightarrow>
        if construct_type = ''welp'' then
          (case group m 1 of
             None \<Rightarrow> (None, insert ''welp_fallback'' used)
           | Some g1 \<Rightarrow>
              (case group m 2 of
                 None \<Rightarrow> (None, insert ''welp_fallback'' used)
               | Some g2 \<Rightarrow>
                  (case transform_ish_constructs M (strip g1) (insert ''welp_fallback'' used) of
                     (primary_expr, used1) \<Rightarrow>
                      (case transform_ish_constructs M (strip g2) used1 of
                         (fallback_value, used2) \<Rightarrow>
                           (Some (''welp_fallback(lambda: '' @ primary_expr @ '', ''
                                   @ fallback_value @ '')''), used2)))))
        else (None, used))"

fun welp_loop ::
  "matchers \<Rightarrow> inline_construct list \<Rightarrow> string \<Rightarrow> helpers \<Rightarrow> string \<times> helpers" where
  "welp_loop M [] transformed_line used = (transformed_line, used)"
| "welp_loop M (c # cs) transformed_line used =
     (case welp_replacement M c used of
        (None, used') \<Rightarrow> welp_loop M cs transformed_line used'
      | (Some replacement, used') \<Rightarrow>
          welp_loop M cs
            (splice transformed_line (fst (snd (snd c))) (snd (snd (snd c))) replacement) used')"

definition transform_welp_constructs :: "matchers \<Rightarrow> string \<Rightarrow> helpers \<Rightarrow> string \<times> helpers" where
  "transform_welp_constructs M line used =
     (let welp_constructs = find_welp_constructs M line in
      if welp_constructs = [] then (line, used)
      else welp_loop M (rev welp_constructs) line used)"

section \<open>Transforming one line\<close>

text \<open>
  A transform raises when it calls a string method on a group that is \<open>None\<close>, and
  the block and file processors wrap what the steps inside them raise in a
  \<open>KindaParseError\<close> with the number and the text of the line.
\<close>

datatype py_error = AttributeError | KindaParseError message nat string
and message =
    SometimesNeedsParentheses
  | MaybeNeedsParentheses
  | ErrorInConditionalBlock py_error
  | ErrorInPythonIndentedBlock py_error
  | TransformFailed py_error

text \<open>\<open>fmt g\<close> is the text an f-string gives for a group; \<open>truthy g\<close> is its truth value.\<close>

definition fmt :: "string option \<Rightarrow> string" where
  "fmt g = (case g of None \<Rightarrow> ''None'' | Some s \<Rightarrow> s)"

definition truthy :: "string option \<Rightarrow> bool" where
  "truthy g = (case g of None \<Rightarrow> False | Some s \<Rightarrow> s \<noteq> [])"

text \<open>\<open>last_component s\<close> is \<open>s.split(".")[-1]\<close>.\<close>

definition last_component :: "string \<Rightarrow> string" where
  "last_component s = rev (takeWhile (\<lambda>c. c \<noteq> CHR ''.'') (rev s))"

text \<open>\<open>py_replace s old new\<close> is \<open>s.replace(old, new)\<close>.\<close>

function py_replace :: "string \<Rightarrow> string \<Rightarrow> string \<Rightarrow> string" where
  "py_replace [] old new = (if old = [] then new else [])"
| "py_replace (c # cs) old new =
     (if old = [] then new @ concat (map (\<lambda>d. d # new) (c # cs))
      else if startswith (c # cs) old then new @ py_replace (drop (length old) (c # cs)) old new
      else c # py_replace cs old new)"
  by pat_completeness auto
termination
  by (relation "measure (\<lambda>(s, old, new). length s)") auto

text \<open>
  The complexity test of \<open>transform_line\<close> on the groups of a \<open>welp\<close> header.
\<close>

definition complex_ops :: "string list" where
  "complex_ops = [''('', '')'', ''+'', ''-'', ''*'', ''/'', ''='', ''['', '']'']"

definition inline_keywords :: "string list" where
  "inline_keywords =
     [''if'', ''elif'', ''while'', ''for'', ''return'', ''yield'', ''assert'', ''del'']"

definition welp_primary :: "string option list \<Rightarrow> string" where
  "welp_primary groups =
     (if groups \<noteq> [] \<and> truthy (groups ! 0) then strip (fmt (groups ! 0)) else [])"

definition welp_fallback_expr :: "string option list \<Rightarrow> string" where
  "welp_fallback_expr groups =
     (if length groups > 1 \<and> truthy (groups ! 1) then strip (fmt (groups ! 1)) else [])"

definition welp_is_complex :: "string option list \<Rightarrow> bool" where
  "welp_is_complex groups =
     (let primary_expr = welp_primary groups;
          fallback_expr = welp_fallback_expr groups;
          is_complex_expr = any_in complex_ops primary_expr;
          is_complex_fallback = any_in complex_ops fallback_expr;
          starts_with_keyword =
            list_ex (\<lambda>kw. startswith (strip primary_expr) (kw @ '' '')) inline_keywords;
          ends_with_colon = endswith (strip fallback_expr) '':''
      in is_complex_expr \<or> is_complex_fallback \<or> starts_with_keyword \<or> ends_with_colon)"

text \<open>
  The loop of \<open>transform_line\<close> over the groups of a header that is not an import.
\<close>

fun process_groups ::
  "matchers \<Rightarrow> string \<Rightarrow> string option list \<Rightarrow> string option list \<Rightarrow> helpers
     \<Rightarrow> string option list \<times> helpers" where
  "process_groups M key [] processed_groups used = (processed_groups, used)"
| "process_groups M key (g # gs) processed_groups used =
     (case g of
        None \<Rightarrow> process_groups M key gs (processed_groups @ [None]) used
      | Some grp \<Rightarrow>
          if key = ''welp'' then
            (if length processed_groups = 1 then
               (case transform_ish_constructs M grp used of
                  (group_transformed, used1) \<Rightarrow>
                    process_groups M key gs (processed_groups @ [Some group_transformed]) used1)
             else process_groups M key gs (processed_groups @ [Some grp]) used)
          else
            (case transform_ish_constructs M grp used of
               (group_ish_transformed, used1) \<Rightarrow>
                 (case transform_welp_constructs M group_ish_transformed used1 of
                    (group_fully_transformed, used2) \<Rightarrow>
                      process_groups M key gs
                        (processed_groups @ [Some group_fully_transformed]) used2)))"

text \<open>
  The chain of \<open>if key == ...\<close> of \<open>transform_line\<close>: the code for the construct
  \<open>key\<close> from its groups, or \<open>stripped\<close> for a construct it does not know or a
  malformed one.
\<close>

definition conditional_code :: "string \<Rightarrow> string option list \<Rightarrow> string" where
  "conditional_code name groups =
     (let cond = (if groups \<noteq> [] \<and> truthy (groups ! 0) then strip (fmt (groups ! 0)) else [])
      in if cond \<noteq> [] then ''if '' @ name @ ''('' @ cond @ ''):''
         else ''if '' @ name @ ''():'')"

definition construct_code ::
  "string \<Rightarrow> string option list \<Rightarrow> string \<Rightarrow> helpers \<Rightarrow> (py_error + string) \<times> helpers" where
  "construct_code key groups stripped used =
     (if key = ''kinda_int'' then
        (if length groups \<ge> 2 then
           (Inr (fmt (groups ! 0) @ '' = kinda_int('' @ fmt (groups ! 1) @ '')''),
            insert ''kinda_int'' used)
         else (Inr stripped, used))
      else if key = ''kinda_binary'' then
        (if length groups \<ge> 1 then
           (if length groups \<ge> 2 \<and> truthy (groups ! 1) then
              (Inr (fmt (groups ! 0) @ '' = kinda_binary('' @ fmt (groups ! 1) @ '')''),
               insert ''kinda_binary'' used)
            else (Inr (fmt (groups ! 0) @ '' = kinda_binary()''), insert ''kinda_binary'' used))
         else (Inr stripped, used))
      else if key = ''sorta_print'' then
        (if length groups \<ge> 1 then
           (Inr (''sorta_print('' @ fmt (groups ! 0) @ '')''), insert ''sorta_print'' used)
         else (Inr stripped, used))
      else if key = ''sometimes'' then
        (Inr (conditional_code ''sometimes'' groups), insert ''sometimes'' used)
      else if key = ''maybe'' then
        (Inr (conditional_code ''maybe'' groups), insert ''maybe'' used)
      else if key = ''fuzzy_reassign'' then
        (if length groups \<ge> 2 then
           (Inr (fmt (groups ! 0) @ '' = fuzzy_assign('' @ [CHR 0x27] @ fmt (groups ! 0)
                   @ [CHR 0x27] @ '', '' @ fmt (groups ! 1) @ '')''),
            insert ''fuzzy_assign'' used)
         else (Inr stripped, used))
      else if key = ''kinda_import'' then
        (if length groups \<ge> 1 then
           (if length groups \<ge> 2 \<and> truthy (groups ! 1) then
              (Inr (fmt (groups ! 1) @ '' = kinda_import('' @ [CHR 0x27] @ fmt (groups ! 0)
                      @ [CHR 0x27] @ '', alias='' @ [CHR 0x27] @ fmt (groups ! 1)
                      @ [CHR 0x27] @ '')''),
               insert ''kinda_import'' used)
            else
              (case groups ! 0 of
                 None \<Rightarrow> (Inl AttributeError, used)
               | Some module_name \<Rightarrow>
                   (Inr (last_component module_name @ '' = kinda_import('' @ [CHR 0x27]
                           @ module_name @ [CHR 0x27] @ '')''),
                    insert ''kinda_import'' used)))
         else (Inr stripped, used))
      else if key = ''maybe_import'' then
        (if length groups \<ge> 1 then
           (let module_name = groups ! 0;
                alias = (if length groups > 1 \<and> truthy (groups ! 1) then groups ! 1 else None);
                fallback = (if length groups > 2 \<and> truthy (groups ! 2) then groups ! 2 else None);
                used1 = insert ''maybe_import'' used
            in if truthy alias then
                 (if truthy fallback then
                    (Inr (fmt alias @ '' = maybe_import('' @ [CHR 0x27] @ fmt module_name
                            @ [CHR 0x27] @ '', alias='' @ [CHR 0x27] @ fmt alias @ [CHR 0x27]
                            @ '', fallback_module='' @ [CHR 0x27] @ strip (fmt fallback)
                            @ [CHR 0x27] @ '')''), used1)
                  else
                    (Inr (fmt alias @ '' = maybe_import('' @ [CHR 0x27] @ fmt module_name
                            @ [CHR 0x27] @ '', alias='' @ [CHR 0x27] @ fmt alias @ [CHR 0x27]
                            @ '')''), used1))
               else
                 (case module_name of
                    None \<Rightarrow> (Inl AttributeError, used1)
                  | Some mn \<Rightarrow>
                      (if truthy fallback then
                         (Inr (last_component mn @ '' = maybe_import('' @ [CHR 0x27] @ mn
                                 @ [CHR 0x27] @ '', fallback_module='' @ [CHR 0x27]
                                 @ strip (fmt fallback) @ [CHR 0x27] @ '')''), used1)
                       else
                         (Inr (last_component mn @ '' = maybe_import('' @ [CHR 0x27] @ mn
                                 @ [CHR 0x27] @ '')''), used1))))
         else (Inr stripped, used))
      else if key = ''welp'' then
        (if length groups \<ge> 2 then
           (case groups ! 0 of
              None \<Rightarrow> (Inl AttributeError, used)
            | Some g0 \<Rightarrow>
               (case groups ! 1 of
                  None \<Rightarrow> (Inl AttributeError, used)
                | Some g1 \<Rightarrow>
                   (let primary_expr = strip g0;
                        fallback_value = strip g1;
                        used1 = insert ''welp_fallback'' used
                    in if py_in ''='' primary_expr \<and> \<not> startswith (strip primary_expr) ''=''
                       then
                         (let var_name = strip (takeWhile (\<lambda>c. c \<noteq> CHR ''='') primary_expr);
                              expr_part =
                                strip (drop 1 (dropWhile (\<lambda>c. c \<noteq> CHR ''='') primary_expr))
                          in (Inr (var_name @ '' = welp_fallback(lambda: '' @ expr_part @ '', ''
                                     @ fallback_value @ '')''), used1))
                       else
                         (Inr (''welp_fallback(lambda: '' @ primary_expr @ '', ''
                                 @ fallback_value @ '')''), used1))))
         else (Inr stripped, used))
      else (Inr stripped, used))"

text \<open>
  The branch of \<open>transform_line\<close> for a line that is no construct header: the
  inline \<open>~ish\<close> constructs are rewritten first, then the inline \<open>~welp\<close> ones.
\<close>

definition inline_transform :: "matchers \<Rightarrow> string \<Rightarrow> helpers \<Rightarrow> string list \<times> helpers" where
  "inline_transform M line used =
     (case transform_ish_constructs M line used of
        (ish_transformed_line, used1) \<Rightarrow>
          (case transform_welp_constructs M ish_transformed_line used1 of
             (welp_transformed_line, used2) \<Rightarrow>
               (if welp_transformed_line \<noteq> line then [welp_transformed_line] else [line],
                used2)))"

text \<open>
  \<open>header_match\<close> is the key and the groups that \<open>transform_line\<close> goes on with:
  those of the matcher, unless the key is empty or a \<open>welp\<close> header looks complex.
\<close>

definition header_match :: "matchers \<Rightarrow> string \<Rightarrow> (string \<times> string option list) option" where
  "header_match M stripped =
     (case match_python_construct M stripped of
        None \<Rightarrow> None
      | Some (key, groups) \<Rightarrow>
          if key = ''welp'' \<and> welp_is_complex groups then None
          else if key = [] then None
          else Some (key, groups))"

definition transform_line ::
  "matchers \<Rightarrow> string \<Rightarrow> helpers \<Rightarrow> (py_error + string list) \<times> helpers" where
  "transform_line M line used =
     (let stripped = strip line in
      if stripped = [] then (Inr [[]], used)
      else if startswith stripped ''#'' then (Inr [line], used)
      else
        (case header_match M stripped of
           None \<Rightarrow> (case inline_transform M line used of (ls, used1) \<Rightarrow> (Inr ls, used1))
         | Some (key, groups) \<Rightarrow>
             (case (if key \<noteq> ''kinda_import'' \<and> key \<noteq> ''maybe_import''
                    then process_groups M key groups [] used else (groups, used)) of
                (groups1, used1) \<Rightarrow>
                  (case construct_code key groups1 stripped used1 of
                     (Inl e, used2) \<Rightarrow> (Inl e, used2)
                   | (Inr transformed_code, used2) \<Rightarrow>
                       (Inr [py_replace line stripped transformed_code], used2)))))"

section \<open>Blocks and files\<close>

text \<open>
  \<open>_validate_conditional_syntax\<close> raises for a conditional without parentheses and
  returns \<open>True\<close> otherwise.
\<close>

definition validate_conditional_syntax :: "string \<Rightarrow> nat \<Rightarrow> py_error + bool" where
  "validate_conditional_syntax line line_number =
     (if startswith line ''~sometimes'' then
        (if \<not> startswith line ''~sometimes('' \<and> \<not> py_in ''('' line
         then Inl (KindaParseError SometimesNeedsParentheses line_number line)
         else Inr True)
      else if startswith line ''~maybe'' then
        (if \<not> startswith line ''~maybe import'' \<and> \<not> py_in ''('' line
         then Inl (KindaParseError MaybeNeedsParentheses line_number line)
         else Inr True)
      else Inr True)"

text \<open>\<open>indent_width line\<close> is \<open>len(line) - len(line.lstrip())\<close>.\<close>

definition indent_width :: "string \<Rightarrow> nat" where
  "indent_width line = length line - length (lstrip line)"

text \<open>
  The loop of \<open>_process_python_indented_block\<close> from the index \<open>i\<close>: the result is
  the index the loop stopped at and the output lines. What the functions print is
  not part of the model.
\<close>

function process_python_indented_block ::
  "matchers \<Rightarrow> string list \<Rightarrow> nat \<Rightarrow> string list \<Rightarrow> string \<Rightarrow> helpers
     \<Rightarrow> (py_error + nat \<times> string list) \<times> helpers" where
  "process_python_indented_block M lines i output_lines conditional_line used =
     (if i < length lines then
        (let line = lines ! i;
             stripped = strip line;
             line_number = i + 1
         in if stripped = [] then
              process_python_indented_block M lines (i + 1) (output_lines @ [line])
                conditional_line used
            else if indent_width line \<le> indent_width conditional_line then
              (Inr (i, output_lines), used)
            else
              (case transform_line M line used of
                 (Inl e, used1) \<Rightarrow>
                   (Inl (KindaParseError (ErrorInPythonIndentedBlock e) line_number line), used1)
               | (Inr transformed, used1) \<Rightarrow>
                   process_python_indented_block M lines (i + 1) (output_lines @ transformed)
                     conditional_line used1))
      else (Inr (i, output_lines), used))"
  by pat_completeness auto
termination
  by (relation "measure (\<lambda>(M, lines, i, output_lines, conditional_line, used). length lines - i)")
     auto

text \<open>
  The loop of \<open>_process_conditional_block\<close> from the index \<open>i\<close> with the counter
  \<open>brace_count\<close>; the function itself enters the loop with the counter at 1, and so
  does its call for a nested conditional.
\<close>

function conditional_block_loop ::
  "matchers \<Rightarrow> string list \<Rightarrow> nat \<Rightarrow> int \<Rightarrow> string list \<Rightarrow> string \<Rightarrow> helpers
     \<Rightarrow> (py_error + nat \<times> string list) \<times> helpers" where
  "conditional_block_loop M lines i brace_count output_lines indent used =
     (if i < length lines then
        (let line = lines ! i;
             stripped = strip line;
             line_number = i + 1;
             brace_count1 = (if stripped = ''}'' then brace_count - 1 else brace_count)
         in if stripped = ''}'' \<and> brace_count1 = 0 then (Inr (i + 1, output_lines), used)
            else if stripped = [] \<or> startswith stripped ''#'' then
              conditional_block_loop M lines (i + 1) brace_count1 (output_lines @ [indent @ line])
                indent used
            else if startswith stripped ''~sometimes'' \<or> startswith stripped ''~maybe'' then
              (case validate_conditional_syntax stripped line_number of
                 Inl e \<Rightarrow>
                   (Inl (KindaParseError (ErrorInConditionalBlock e) line_number line), used)
               | Inr ok \<Rightarrow>
                   if \<not> ok then
                     conditional_block_loop M lines (i + 1) brace_count1 output_lines indent used
                   else
                     (case transform_line M line used of
                        (Inl e, used1) \<Rightarrow>
                          (Inl (KindaParseError (ErrorInConditionalBlock e) line_number line),
                           used1)
                      | (Inr transformed_nested, used1) \<Rightarrow>
                          (case conditional_block_loop M lines (i + 1) 1
                                  (output_lines @ map (\<lambda>l. indent @ l) transformed_nested)
                                  (indent @ ''    '') used1 of
                             (Inl e, used2) \<Rightarrow>
                               (Inl (KindaParseError (ErrorInConditionalBlock e) line_number
                                       line), used2)
                           | (Inr (i2, output_lines2), used2) \<Rightarrow>
                               conditional_block_loop M lines i2 brace_count1 output_lines2
                                 indent used2)))
            else
              (let brace_count2 =
                     (if endswith stripped ''{'' then brace_count1 + 1 else brace_count1)
               in case transform_line M line used of
                    (Inl e, used1) \<Rightarrow>
                      (Inl (KindaParseError (ErrorInConditionalBlock e) line_number line), used1)
                  | (Inr transformed_block, used1) \<Rightarrow>
                      conditional_block_loop M lines (i + 1) brace_count2
                        (output_lines @ map (\<lambda>l. indent @ l) transformed_block) indent used1))
      else (Inr (i, output_lines), used))"
  by pat_completeness auto

text \<open>The loop never returns an index before the one it started at.\<close>

lemma conditional_block_loop_index:
  "conditional_block_loop_dom (M, lines, i, bc, out, indent, used) \<Longrightarrow>
   conditional_block_loop M lines i bc out indent used = (Inr (i2, out2), used2) \<Longrightarrow> i \<le> i2"
proof (induction M lines i bc out indent used arbitrary: i2 out2 used2
       rule: conditional_block_loop.pinduct)
  case (1 M lines i bc out indent used)
  let ?line = "lines ! i"
  let ?s = "strip ?line"
  let ?bc1 = "if ?s = ''}'' then bc - 1 else bc"
  let ?bc2 = "if endswith ?s ''{'' then ?bc1 + 1 else ?bc1"
  note ps = conditional_block_loop.psimps[OF "1.hyps"]
  note eq = "1.prems"
  show ?case
  proof (cases "i < length lines")
    case False
    then show ?thesis using eq by (simp add: ps)
  next
    case True
    show ?thesis
    proof (cases "?s = ''}'' \<and> ?bc1 = 0")
      case A: True
      then have s: "?s = ''}''" and bc: "bc = 1"
        by (simp_all split: if_splits)
      have "conditional_block_loop M lines i bc out indent used = (Inr (i + 1, out), used)"
        by (subst ps) (simp add: True s bc Let_def)
      with eq show ?thesis by simp
    next
      case nA: False
      show ?thesis
      proof (cases "?s = [] \<or> startswith ?s ''#''")
        case B: True
        have "conditional_block_loop M lines (i + 1) ?bc1 (out @ [indent @ ?line]) indent used
              = (Inr (i2, out2), used2)"
          using eq True nA B by (simp add: ps Let_def)
        from "1.IH"(1)[OF True refl refl refl refl nA B this] show ?thesis by simp
      next
        case nB: False
        show ?thesis
        proof (cases "startswith ?s ''~sometimes'' \<or> startswith ?s ''~maybe''")
          case C: True
          show ?thesis
          proof (cases "validate_conditional_syntax ?s (i + 1)")
            case (Inl e)
            then show ?thesis using eq True nA nB C by (simp add: ps Let_def)
          next
            case (Inr ok)
            show ?thesis
            proof (cases ok)
              case False
              have "conditional_block_loop M lines (i + 1) ?bc1 out indent used
                    = (Inr (i2, out2), used2)"
                using eq True nA nB C Inr False by (simp add: ps Let_def)
              from "1.IH"(2)[OF True refl refl refl refl nA nB C Inr False this]
              show ?thesis by simp
            next
              case ok: True
              then have nnok: "\<not> \<not> ok" by simp
              obtain r used1 where tl: "transform_line M ?line used = (r, used1)"
                by (cases "transform_line M ?line used")
              show ?thesis
              proof (cases r)
                case (Inl e)
                then show ?thesis using eq True nA nB C Inr ok tl by (simp add: ps Let_def)
              next
                case tr: (Inr transformed_nested)
                obtain r2 used2' where nested:
                  "conditional_block_loop M lines (i + 1) 1
                     (out @ map ((@) indent) transformed_nested) (indent @ ''    '') used1
                   = (r2, used2')"
                  by (cases "conditional_block_loop M lines (i + 1) 1
                     (out @ map ((@) indent) transformed_nested) (indent @ ''    '') used1")
                show ?thesis
                proof (cases r2)
                  case (Inl e)
                  then show ?thesis using eq True nA nB C Inr ok tl tr nested
                    by (simp add: ps Let_def)
                next
                  case r2: (Inr p)
                  obtain j outj where p: "p = (j, outj)" by (cases p)
                  have step1: "i + 1 \<le> j"
                    using "1.IH"(3)[OF True refl refl refl refl nA nB C Inr nnok tl[symmetric] tr]
                      nested r2 p by simp
                  have cont: "conditional_block_loop M lines j ?bc1 outj indent used2'
                        = (Inr (i2, out2), used2)"
                    using eq True nA nB C Inr ok tl tr nested r2 p by (simp add: ps Let_def)
                  have "j \<le> i2"
                    by (rule "1.IH"(4)[OF True refl refl refl refl nA nB C Inr nnok tl[symmetric] tr
                          nested[symmetric] r2 p[symmetric] cont])
                  with step1 show ?thesis by simp
                qed
              qed
            qed
          qed
        next
          case nC: False
          obtain r used1 where tl: "transform_line M ?line used = (r, used1)"
            by (cases "transform_line M ?line used")
          show ?thesis
          proof (cases r)
            case (Inl e)
            then show ?thesis using eq True nA nB nC tl by (simp add: ps Let_def)
          next
            case tr: (Inr transformed_block)
            have "conditional_block_loop M lines (i + 1) ?bc2
                    (out @ map ((@) indent) transformed_block) indent used1
                  = (Inr (i2, out2), used2)"
              using eq True nA nB nC tl tr by (simp add: ps Let_def)
            from "1.IH"(5)[OF True refl refl refl refl nA nB nC refl tl[symmetric] tr this]
            show ?thesis by simp
          qed
        qed
      qed
    qed
  qed
qed

lemma conditional_block_loop_total: "All conditional_block_loop_dom"
proof (relation "measure (\<lambda>(M, lines, i, bc, out, indent, used). length lines - i)",
       goal_cases)
  case 1
  then show ?case by simp
next
  case 2 then show ?case by simp
next
  case 3 then show ?case by simp
next
  case 4 then show ?case by simp
next
  case (5 M lines i brace_count output_lines indent used x xa xb xc b xaa y ba xab ya bb xd yb)
  have "conditional_block_loop M lines (i + 1) 1
          (output_lines @ map ((@) indent) ba) (indent @ ''    '') y = (Inr (xd, yb), ya)"
    using 5 by simp
  moreover have "conditional_block_loop_dom (M, lines, i + 1, 1,
          output_lines @ map ((@) indent) ba, indent @ ''    '', y)"
    using 5 by simp
  ultimately have "i + 1 \<le> xd"
    using conditional_block_loop_index by blast
  then show ?case using 5(1) by simp
next
  case 6 then show ?case by simp
qed

termination conditional_block_loop
  by (rule conditional_block_loop_total)

declare conditional_block_loop.simps [simp del]
declare process_python_indented_block.simps [simp del]

lemma conditional_block_loop_advances:
  "conditional_block_loop M lines i bc out indent used = (Inr (i2, out2), used2) \<Longrightarrow> i \<le> i2"
  using conditional_block_loop_index conditional_block_loop_total by blast

lemma process_python_indented_block_advances:
  "process_python_indented_block M lines i out cl used = (Inr (i2, out2), used2) \<Longrightarrow> i \<le> i2"
proof (induction M lines i out cl used rule: process_python_indented_block.induct)
  case (1 M lines i out cl used)
  note ps = process_python_indented_block.simps[of M lines i out cl used]
  note eq = "1.prems"
  show ?case
  proof (cases "i < length lines")
    case False
    then show ?thesis using eq by (simp add: ps)
  next
    case True
    show ?thesis
    proof (cases "strip (lines ! i) = []")
      case blank: True
      have "process_python_indented_block M lines (i + 1) (out @ [lines ! i]) cl used
            = (Inr (i2, out2), used2)"
        using eq True blank by (simp add: ps Let_def)
      from "1.IH"(1)[OF True refl refl refl blank this] show ?thesis by simp
    next
      case nonblank: False
      show ?thesis
      proof (cases "indent_width (lines ! i) \<le> indent_width cl")
        case True
        then show ?thesis using eq \<open>i < length lines\<close> nonblank by (simp add: ps Let_def)
      next
        case deeper: False
        obtain r used1 where tl: "transform_line M (lines ! i) used = (r, used1)"
          by (cases "transform_line M (lines ! i) used")
        show ?thesis
        proof (cases r)
          case (Inl e)
          then show ?thesis using eq True nonblank deeper tl by (simp add: ps Let_def)
        next
          case tr: (Inr transformed)
          have "process_python_indented_block M lines (i + 1) (out @ transformed) cl used1
                = (Inr (i2, out2), used2)"
            using eq True nonblank deeper tl tr by (simp add: ps Let_def)
          from "1.IH"(2)[OF True refl refl refl nonblank deeper tl[symmetric] tr this]
          show ?thesis by simp
        qed
      qed
    qed
  qed
qed

text \<open>\<open>_process_conditional_block\<close> enters its loop with \<open>brace_count = 1\<close>.\<close>

definition process_conditional_block ::
  "matchers \<Rightarrow> string list \<Rightarrow> nat \<Rightarrow> string list \<Rightarrow> string \<Rightarrow> helpers
     \<Rightarrow> (py_error + nat \<times> string list) \<times> helpers" where
  "process_conditional_block M lines start_index output_lines indent used =
     conditional_block_loop M lines start_index 1 output_lines indent used"

text \<open>
  The loop of \<open>transform_file\<close> over the lines of the file, from the index \<open>i\<close>.
  After a conditional header the block processor returns the index the loop goes on
  from.
\<close>

function transform_loop ::
  "matchers \<Rightarrow> string list \<Rightarrow> nat \<Rightarrow> string list \<Rightarrow> helpers
     \<Rightarrow> (py_error + string list) \<times> helpers" where
  "transform_loop M lines i output_lines used =
     (if i < length lines then
        (let line = lines ! i;
             stripped = strip line;
             line_number = i + 1
         in if startswith stripped ''~sometimes'' \<or> startswith stripped ''~maybe'' then
              (case validate_conditional_syntax stripped line_number of
                 Inl e \<Rightarrow> (Inl (KindaParseError (TransformFailed e) line_number line), used)
               | Inr ok \<Rightarrow>
                   if \<not> ok then transform_loop M lines (i + 1) output_lines used
                   else
                     (case transform_line M line used of
                        (Inl e, used1) \<Rightarrow>
                          (Inl (KindaParseError (TransformFailed e) line_number line), used1)
                      | (Inr transformed, used1) \<Rightarrow>
                          (case (if endswith stripped ''{''
                                 then process_conditional_block M lines (i + 1)
                                        (output_lines @ transformed) ''    '' used1
                                 else process_python_indented_block M lines (i + 1)
                                        (output_lines @ transformed) line used1) of
                             (Inl e, used2) \<Rightarrow>
                               (Inl (KindaParseError (TransformFailed e) line_number line), used2)
                           | (Inr (i2, output_lines2), used2) \<Rightarrow>
                               transform_loop M lines i2 output_lines2 used2)))
            else
              (case transform_line M line used of
                 (Inl e, used1) \<Rightarrow>
                   (Inl (KindaParseError (TransformFailed e) line_number line), used1)
               | (Inr transformed, used1) \<Rightarrow>
                   transform_loop M lines (i + 1) (output_lines @ transformed) used1))
      else (Inr output_lines, used))"
  by pat_completeness auto
termination
proof (relation "measure (\<lambda>(M, lines, i, output_lines, used). length lines - i)", goal_cases)
  case 1
  then show ?case by simp
next
  case 2
  then show ?case by simp
next
  case (3 M lines i output_lines used x xa xb b xaa y ba xab ya bb xc yb)
  have "(if endswith xa ''{''
         then process_conditional_block M lines (i + 1) (output_lines @ ba) ''    '' y
         else process_python_indented_block M lines (i + 1) (output_lines @ ba) x y)
        = (Inr (xc, yb), ya)"
    using 3 by simp
  then have "i + 1 \<le> xc"
    using conditional_block_loop_advances process_python_indented_block_advances
    by (auto simp: process_conditional_block_def split: if_splits)
  then show ?case using 3(1) by simp
next
  case 4
  then show ?case by simp
qed

declare transform_loop.simps [simp del]

text \<open>\<open>join sep xs\<close> is \<open>sep.join(xs)\<close>.\<close>

fun join :: "string \<Rightarrow> string list \<Rightarrow> string" where
  "join sep [] = []"
| "join sep [x] = x"
| "join sep (x # y # ys) = x @ sep @ join sep (y # ys)"

text \<open>
  The header of the output: the import of the helpers in \<open>used_helpers\<close>, sorted, or
  nothing when the set is empty.
\<close>

definition import_header :: "string \<Rightarrow> helpers \<Rightarrow> string" where
  "import_header target_language used =
     (if used \<noteq> {} then
        ''from kinda.langs.'' @ target_language @ ''.runtime.fuzzy import ''
          @ join '', '' (sorted_list_of_set used) @ [CHR 0x0A, CHR 0x0A]
      else [])"

text \<open>
  \<open>transform_file\<close> on the lines of the file (\<open>content.splitlines()\<close>; reading the
  file is outside the model). It starts from the set \<open>used_helpers\<close> as it is when
  the call begins, and the set it returns is the one the next call starts from.
\<close>

definition transform_file ::
  "matchers \<Rightarrow> string list \<Rightarrow> string \<Rightarrow> helpers \<Rightarrow> (py_error + string) \<times> helpers" where
  "transform_file M lines target_language used =
     (case transform_loop M lines 0 [] used of
        (Inl e, used1) \<Rightarrow> (Inl e, used1)
      | (Inr output_lines, used1) \<Rightarrow>
          (Inr (import_header target_language used1 @ join [CHR 0x0A] output_lines), used1))"

section \<open>Direct execution: \<open>semantics.py\<close>\<close>

text \<open>
  The values of the interpreter, as far as \<open>kinda_assign\<close> tells them apart: \<open>None\<close>,
  the numbers (\<open>bool\<close> is a subclass of \<open>int\<close>), and the rest. The type \<open>'f\<close> is
  that of the floats. The environment \<open>env\<close> is a dictionary from names to values.
\<close>

datatype 'f pyval = PyNone | PyBool bool | PyInt int | PyFloat 'f | PyStr string | PyOther nat

type_synonym 'f env = "string \<rightharpoonup> 'f pyval"

text \<open>
  Python's \<open>eval(expr, globals, env)\<close> is a parameter \<open>py_eval\<close> of the model: it
  returns the value of the expression, or nothing when the evaluation raised, and the
  dictionary \<open>env\<close> as the evaluation left it (\<open>env\<close> is the namespace the expression
  is evaluated in, so an assignment expression stores into it).
\<close>

type_synonym 'f evaluator = "string \<Rightarrow> 'f env \<Rightarrow> 'f pyval option \<times> 'f env"

definition dangerous_keywords :: "string list" where
  "dangerous_keywords = [''import'', ''exec'', ''eval'', ''open'', ''__'']"

definition evaluate :: "'f evaluator \<Rightarrow> 'f pyval \<Rightarrow> 'f env \<Rightarrow> 'f pyval \<times> 'f env" where
  "evaluate py_eval expr env =
     (case expr of
        PyStr e \<Rightarrow>
          if any_in dangerous_keywords e then (PyNone, env)
          else (case py_eval e env of
                  (None, env1) \<Rightarrow> (PyNone, env1)
                | (Some v, env1) \<Rightarrow> (v, env1))
      | _ \<Rightarrow> (PyNone, env))"

text \<open>
  \<open>kinda_assign\<close>: \<open>choice\<close> is the number that \<open>random.choice([-1, 0, 1])\<close> draws and
  \<open>float_add\<close> the addition of an integer to a float.
\<close>

definition fuzzed :: "('f \<Rightarrow> int \<Rightarrow> 'f) \<Rightarrow> int \<Rightarrow> 'f pyval \<Rightarrow> 'f pyval" where
  "fuzzed float_add choice v =
     (case v of
        PyBool b \<Rightarrow> PyInt (of_bool b + choice)
      | PyInt n \<Rightarrow> PyInt (n + choice)
      | PyFloat x \<Rightarrow> PyFloat (float_add x choice)
      | _ \<Rightarrow> v)"

definition kinda_assign ::
  "'f evaluator \<Rightarrow> ('f \<Rightarrow> int \<Rightarrow> 'f) \<Rightarrow> int \<Rightarrow> string \<Rightarrow> 'f pyval \<Rightarrow> 'f env \<Rightarrow> 'f env" where
  "kinda_assign py_eval float_add choice var expr env =
     (case evaluate py_eval expr env of
        (v, env1) \<Rightarrow>
          if v \<noteq> PyNone then env1(var \<mapsto> fuzzed float_add choice v) else env1)"

section \<open>Example lines\<close>

text \<open>
  Modelled from the spec: \<open>kinda/grammar/python/matchers.py\<close> is not among the
  sources. The Construct Matcher attempts the construct patterns and returns the
  first match with the groups exactly as the pattern captures them, and the Inline
  Composer scans a line for embedded approximate-value, approximate-comparison and
  fallback sub-expressions. \<open>example_matchers\<close> gives what the patterns of
  \<open>constructs.py\<close> capture on the lines that the examples below use, and finds
  nothing on any other text.
\<close>

definition example_headers :: "(string \<times> string \<times> string option list) list" where
  "example_headers =
     [(''~kinda int x ~= 42'', ''kinda_int'', [Some ''x'', Some ''42'']),
      (''~kinda int x = 100~ish'', ''kinda_int'', [Some ''x'', Some ''100~ish'']),
      (''~kinda import os'', ''kinda_import'', [Some ''os'', None]),
      (''value ~= 100~ish'', ''fuzzy_reassign'', [Some ''value'', Some ''100~ish'']),
      (''x > 42~ish ~welp 0'', ''welp'', [Some ''x > 42~ish '', Some ''0'']),
      (''x % 5~ish ~welp 0'', ''welp'', [Some ''x % 5~ish '', Some ''0'']),
      (''raise e ~welp 0'', ''welp'', [Some ''raise e '', Some ''0'']),
      (''x ~welp 100~ish'', ''welp'', [Some ''x '', Some ''100~ish'']),
      (''result = os.getcwd() ~welp '' @ [CHR 0x22] @ ''/tmp'' @ [CHR 0x22], ''welp'',
         [Some ''result = os.getcwd() '', Some ([CHR 0x22] @ ''/tmp'' @ [CHR 0x22])]),
      (''~sometimes()'', ''sometimes'', [Some []]),
      (''~sometimes() {'', ''sometimes'', [Some []]),
      (''~maybe()'', ''maybe'', [Some []])]"

definition example_ish :: "(string \<times> inline_construct list) list" where
  "example_ish =
     [(''x ~ish 5'', [(''ish_comparison'', [''x'', ''5''], 0, 8)]),
      (''x ~ish f(1)'', [(''ish_comparison'', [''x'', ''f(1)''], 0, 11)]),
      (''if x ~ish 5 and ready:'', [(''ish_comparison'', [''x'', ''5''], 3, 11)]),
      (''100~ish'', [(''ish_value'', [''100''], 0, 7)]),
      (''x > 42~ish '', [(''ish_value'', [''42''], 4, 10)]),
      (''x % 5~ish ~welp 0'', [(''ish_value'', [''5''], 4, 9)]),
      (''a = 5~ish; b = 100~ish'',
         [(''ish_value'', [''5''], 4, 9), (''ish_value'', [''100''], 15, 22)])]"

definition example_welp :: "(string \<times> inline_construct list) list" where
  "example_welp =
     [(''result = os.getcwd() ~welp '' @ [CHR 0x22] @ ''/tmp'' @ [CHR 0x22],
         [(''welp'', [''os.getcwd() '', [CHR 0x22] @ ''/tmp'' @ [CHR 0x22]], 9, 33)]),
      (''x % ish_value(5) ~welp 0'', [(''welp'', [''x % ish_value(5) '', ''0''], 0, 24)])]"

definition example_matchers :: matchers where
  "example_matchers =
     \<lparr> match_python_construct = map_of example_headers,
       find_ish_constructs = (\<lambda>s. case map_of example_ish s of None \<Rightarrow> [] | Some cs \<Rightarrow> cs),
       find_welp_constructs = (\<lambda>s. case map_of example_welp s of None \<Rightarrow> [] | Some cs \<Rightarrow> cs) \<rparr>"

section \<open>Properties of the inline rewriting\<close>

lemma splice_middle:
  "s = length p \<Longrightarrow> e = length p + length m \<Longrightarrow> splice (p @ m @ q) s e r = p @ r @ q"
  by (simp add: splice_def)

text \<open>
  Claim C5. A line with two independent approximate-value literals \<open>n1~ish\<close> and
  \<open>n2~ish\<close>, reported by the matcher in the order of their positions: both are
  rewritten in place to \<open>ish_value(n1)\<close> and \<open>ish_value(n2)\<close>. The loop replaces the
  rightmost match first, so the offsets of the left match still hold when it is its
  turn, whatever the lengths of the two replacement texts; the text around the matches
  is unchanged and \<open>ish_value\<close> is registered as used.
\<close>

theorem two_ish_values_rewritten_in_place:
  assumes line: "line = a @ n1 @ ''~ish'' @ b @ n2 @ ''~ish'' @ c"
    and found: "find_ish_constructs M line =
      [(''ish_value'', [n1], length a, length a + length n1 + 4),
       (''ish_value'', [n2], length a + length n1 + 4 + length b,
          length a + length n1 + 4 + length b + length n2 + 4)]"
  shows "transform_ish_constructs M line used =
      (a @ ''ish_value('' @ n1 @ '')'' @ b @ ''ish_value('' @ n2 @ '')'' @ c,
       insert ''ish_value'' used)"
proof -
  let ?r1 = "''ish_value('' @ n1 @ '')''"
  let ?r2 = "''ish_value('' @ n2 @ '')''"
  let ?s1 = "length a" and ?e1 = "length a + length n1 + 4"
  let ?s2 = "length a + length n1 + 4 + length b"
  let ?e2 = "length a + length n1 + 4 + length b + length n2 + 4"
  have "splice ((a @ n1 @ ''~ish'' @ b) @ (n2 @ ''~ish'') @ c) ?s2 ?e2 ?r2
          = (a @ n1 @ ''~ish'' @ b) @ ?r2 @ c"
    by (rule splice_middle) simp_all
  then have right: "splice line ?s2 ?e2 ?r2 = a @ (n1 @ ''~ish'') @ (b @ ?r2 @ c)"
    by (simp add: line)
  have left: "splice (a @ (n1 @ ''~ish'') @ (b @ ?r2 @ c)) ?s1 ?e1 ?r1
          = a @ ?r1 @ (b @ ?r2 @ c)"
    by (rule splice_middle) simp_all
  have both: "splice (splice line ?s2 ?e2 ?r2) ?s1 ?e1 ?r1 = a @ ?r1 @ (b @ ?r2 @ c)"
    by (simp only: right left)
  have "transform_ish_constructs M line used =
        (splice (splice line ?s2 ?e2 ?r2) ?s1 ?e1 ?r1, insert ''ish_value'' used)"
    by (simp add: transform_ish_constructs_def found ish_replacement_def group_def)
  with both show ?thesis by simp
qed

theorem two_ish_values_rewritten_in_place_witness:
  "transform_ish_constructs example_matchers ''a = 5~ish; b = 100~ish'' {}
     = (''a = ish_value(5); b = ish_value(100)'', {''ish_value''})"
  using two_ish_values_rewritten_in_place
    [of "''a = 5~ish; b = 100~ish''" "''a = ''" "''5''" "''; b = ''" "''100''" "[]"
        example_matchers "{}"]
  by (simp add: example_matchers_def example_ish_def)

lemmas example_defs = example_matchers_def example_ish_def example_welp_def example_headers_def
lemmas str_defs = strip_def lstrip_def rstrip_def is_space_def startswith_def endswith_def
  any_in_def

lemma rx_match_lit: "rx_match r s \<Longrightarrow> rx_match (Lit l # r) (l @ s)"
  by (simp add: startswith_def)

lemma rx_match_ws0_none: "rx_match r s \<Longrightarrow> rx_match (Ws0 # r) s"
  by (cases s) simp_all

lemma rx_match_ws0: "list_all is_space w \<Longrightarrow> rx_match r s \<Longrightarrow> rx_match (Ws0 # r) (w @ s)"
  by (induction w) (simp_all add: rx_match_ws0_none)

lemma rx_match_ws1:
  "w \<noteq> [] \<Longrightarrow> list_all is_space w \<Longrightarrow> rx_match r s \<Longrightarrow> rx_match (Ws1 # r) (w @ s)"
  by (cases w) (simp_all add: rx_match_ws0)

lemma rx_match_assignment_shape:
  assumes "list_all is_space w1" and "list_all is_space w2" and "w2 \<noteq> []"
  shows "rx_match [Ws0, Lit name, Ws0, Lit ''~ish'', Ws1, Lit val, Ws0]
           (name @ w1 @ ''~ish'' @ w2 @ val)"
proof -
  have "rx_match [Ws0] []" by simp
  then have "rx_match [Lit val, Ws0] (val @ [])" by (rule rx_match_lit)
  then have "rx_match [Ws1, Lit val, Ws0] (w2 @ val @ [])"
    using assms by (intro rx_match_ws1)
  then have "rx_match [Lit ''~ish'', Ws1, Lit val, Ws0] (''~ish'' @ w2 @ val @ [])"
    by (rule rx_match_lit)
  then have "rx_match [Ws0, Lit ''~ish'', Ws1, Lit val, Ws0] (w1 @ ''~ish'' @ w2 @ val @ [])"
    using assms by (intro rx_match_ws0)
  then have "rx_match [Lit name, Ws0, Lit ''~ish'', Ws1, Lit val, Ws0]
               (name @ w1 @ ''~ish'' @ w2 @ val @ [])"
    by (rule rx_match_lit)
  then have "rx_match [Ws0, Lit name, Ws0, Lit ''~ish'', Ws1, Lit val, Ws0]
               (name @ w1 @ ''~ish'' @ w2 @ val @ [])"
    by (rule rx_match_ws0_none)
  then show ?thesis by simp
qed

lemma single_ish_comparison:
  assumes "find_ish_constructs M line = [(''ish_comparison'', [name, val], s, e)]"
  shows "transform_ish_constructs M line used =
     (if is_standalone_assignment (strip line) name val \<and> \<not> is_in_conditional (strip line)
      then (splice line s e (name @ '' = ish_value('' @ name @ '', '' @ val @ '')''),
            insert ''ish_value'' used)
      else (splice line s e (''ish_comparison('' @ name @ '', '' @ val @ '')''),
            insert ''ish_comparison'' used))"
  using assms
  by (simp add: transform_ish_constructs_def ish_replacement_def group_def Let_def)

text \<open>
  Claim C1, as amended. On a line whose only \<open>~ish\<close> match is \<open>name ~ish val\<close>:
  \<^item> when the stripped line begins with \<open>if\<close>, \<open>elif\<close> or \<open>while\<close> and a space,
    contains \<open>if\<close>, \<open>and\<close> or \<open>or\<close> between spaces, or contains one of
    \<open>+ - * / == != < >\<close>, the match is rewritten to the tolerance comparison
    \<open>ish_comparison(name, val)\<close>;
  \<^item> otherwise, when the stripped line consists solely of \<open>name ~ish val\<close>, the match
    is rewritten to the rebinding \<open>name = ish_value(name, val)\<close>, also when \<open>val\<close>
    holds parentheses, brackets, commas or \<open>=\<close>;
  \<^item> otherwise, when the stripped line holds none of \<open>+ - * / = ( ) [ ] ,\<close>, the
    match is rewritten to the rebinding as well (the tie-break toward assignment);
  \<^item> a line that holds one of \<open>+ - * / = ( ) [ ] ,\<close> and does not match
    \<open>^\s*name\s*~ish\s+val\s*$\<close> gives the comparison.
\<close>

theorem ish_assignment_or_comparison:
  assumes found: "find_ish_constructs M line = [(''ish_comparison'', [name, val], s, e)]"
  shows "(is_in_conditional (strip line) \<longrightarrow>
            transform_ish_constructs M line used =
              (splice line s e (''ish_comparison('' @ name @ '', '' @ val @ '')''),
               insert ''ish_comparison'' used))
       \<and> (\<not> is_in_conditional (strip line)
            \<and> strip line = name @ w1 @ ''~ish'' @ w2 @ val
            \<and> list_all is_space w1 \<and> list_all is_space w2 \<and> w2 \<noteq> [] \<longrightarrow>
            transform_ish_constructs M line used =
              (splice line s e (name @ '' = ish_value('' @ name @ '', '' @ val @ '')''),
               insert ''ish_value'' used))
       \<and> (\<not> is_in_conditional (strip line)
            \<and> \<not> any_in [''+'', ''-'', ''*'', ''/'', ''='', ''('', '')'', ''['', '']'', '','']
                  (strip line) \<longrightarrow>
            transform_ish_constructs M line used =
              (splice line s e (name @ '' = ish_value('' @ name @ '', '' @ val @ '')''),
               insert ''ish_value'' used))
       \<and> (any_in [''+'', ''-'', ''*'', ''/'', ''='', ''('', '')'', ''['', '']'', '','']
              (strip line)
            \<and> \<not> rx_match [Ws0, Lit name, Ws0, Lit ''~ish'', Ws1, Lit val, Ws0] (strip line) \<longrightarrow>
            transform_ish_constructs M line used =
              (splice line s e (''ish_comparison('' @ name @ '', '' @ val @ '')''),
               insert ''ish_comparison'' used))"
proof (intro conjI impI)
  assume "is_in_conditional (strip line)"
  then show "transform_ish_constructs M line used =
      (splice line s e (''ish_comparison('' @ name @ '', '' @ val @ '')''),
       insert ''ish_comparison'' used)"
    by (simp add: single_ish_comparison[OF found])
next
  assume a: "\<not> is_in_conditional (strip line)
      \<and> strip line = name @ w1 @ ''~ish'' @ w2 @ val
      \<and> list_all is_space w1 \<and> list_all is_space w2 \<and> w2 \<noteq> []"
  then have "rx_match [Ws0, Lit name, Ws0, Lit ''~ish'', Ws1, Lit val, Ws0] (strip line)"
    using rx_match_assignment_shape[of w1 w2 name val] by simp
  then have "is_standalone_assignment (strip line) name val"
    by (simp add: is_standalone_assignment_def)
  moreover from a have "\<not> is_in_conditional (strip line)" by blast
  ultimately show "transform_ish_constructs M line used =
      (splice line s e (name @ '' = ish_value('' @ name @ '', '' @ val @ '')''),
       insert ''ish_value'' used)"
    by (simp add: single_ish_comparison[OF found])
next
  assume a: "\<not> is_in_conditional (strip line)
      \<and> \<not> any_in [''+'', ''-'', ''*'', ''/'', ''='', ''('', '')'', ''['', '']'', '','']
            (strip line)"
  then have "is_standalone_assignment (strip line) name val"
    by (simp add: is_standalone_assignment_def)
  with a show "transform_ish_constructs M line used =
      (splice line s e (name @ '' = ish_value('' @ name @ '', '' @ val @ '')''),
       insert ''ish_value'' used)"
    by (simp add: single_ish_comparison[OF found])
next
  assume a: "any_in [''+'', ''-'', ''*'', ''/'', ''='', ''('', '')'', ''['', '']'', '','']
        (strip line)
      \<and> \<not> rx_match [Ws0, Lit name, Ws0, Lit ''~ish'', Ws1, Lit val, Ws0] (strip line)"
  then have "\<not> is_standalone_assignment (strip line) name val"
    by (simp add: is_standalone_assignment_def)
  then show "transform_ish_constructs M line used =
      (splice line s e (''ish_comparison('' @ name @ '', '' @ val @ '')''),
       insert ''ish_comparison'' used)"
    by (simp add: single_ish_comparison[OF found])
qed

theorem ish_assignment_or_comparison_witness:
  "is_in_conditional (strip ''if x ~ish 5 and ready:'')
   \<and> transform_ish_constructs example_matchers ''if x ~ish 5 and ready:'' {}
       = (''if ish_comparison(x, 5) and ready:'', {''ish_comparison''})
   \<and> \<not> is_in_conditional (strip ''x ~ish 5'')
   \<and> transform_ish_constructs example_matchers ''x ~ish 5'' {}
       = (''x = ish_value(x, 5)'', {''ish_value''})"
  using ish_assignment_or_comparison
          [of example_matchers "''if x ~ish 5 and ready:''" "''x''" "''5''" 3 11 "{}" "[]" "[]"]
        ish_assignment_or_comparison
          [of example_matchers "''x ~ish 5''" "''x''" "''5''" 0 8 "{}" "'' ''" "'' ''"]
  by (simp add: example_defs str_defs is_in_conditional_def splice_def)

text \<open>
  The line \<open>x ~ish f(1)\<close> contains parentheses, and its \<open>~ish\<close> sub-expression is
  rewritten to the rebinding, not to \<open>ish_comparison(x, f(1))\<close>.
\<close>

theorem parenthesised_value_is_assignment:
  "py_in ''('' (strip ''x ~ish f(1)'')
   \<and> find_ish_constructs example_matchers ''x ~ish f(1)''
       = [(''ish_comparison'', [''x'', ''f(1)''], 0, 11)]
   \<and> transform_ish_constructs example_matchers ''x ~ish f(1)'' {}
       = (''x = ish_value(x, f(1))'', {''ish_value''})"
  by (simp add: example_defs str_defs transform_ish_constructs_def ish_replacement_def group_def
        is_in_conditional_def is_standalone_assignment_def splice_def)

section \<open>Properties of \<open>transform_line\<close>\<close>

text \<open>
  Claim C8, as amended. A line with a character that is not whitespace comes back
  exactly as it is when it is a comment, or when it matches no construct header and
  holds no inline \<open>~ish\<close> or \<open>~welp\<close> sub-expression. A line of whitespace only comes
  back as the empty line.
\<close>

theorem pass_through_or_blank:
  "(strip line \<noteq> []
      \<and> (startswith (strip line) ''#''
           \<or> (match_python_construct M (strip line) = None
               \<and> find_ish_constructs M line = [] \<and> find_welp_constructs M line = [])) \<longrightarrow>
      transform_line M line used = (Inr [line], used))
   \<and> (strip line = [] \<longrightarrow> transform_line M line used = (Inr [[]], used))"
  by (auto simp: transform_line_def header_match_def inline_transform_def
        transform_ish_constructs_def transform_welp_constructs_def Let_def)

theorem pass_through_or_blank_witness:
  "transform_line example_matchers ''def main():'' {} = (Inr [''def main():''], {})
   \<and> transform_line example_matchers ''# Test kinda imports'' {} = (Inr [''# Test kinda imports''], {})
   \<and> transform_line example_matchers [] {} = (Inr [[]], {})"
  using pass_through_or_blank[of "''def main():''" example_matchers "{}"]
        pass_through_or_blank[of "''# Test kinda imports''" example_matchers "{}"]
        pass_through_or_blank[of "[]" example_matchers "{}"]
  by (simp add: example_defs str_defs)

text \<open>
  The line of three spaces matches no construct header and holds no inline
  sub-expression, and the output line is the empty line, not the input line.
\<close>

theorem whitespace_line_becomes_empty:
  "match_python_construct example_matchers (strip ''   '') = None
   \<and> find_ish_constructs example_matchers ''   '' = []
   \<and> find_welp_constructs example_matchers ''   '' = []
   \<and> transform_line example_matchers ''   '' {} = (Inr [[]], {})
   \<and> [[]] \<noteq> [''   '']"
  by (simp add: example_defs str_defs transform_line_def)

text \<open>
  Claim C3, as amended. A line that the matcher recognises as a \<open>welp\<close> header, and whose primary
  or fallback expression contains a parenthesis, a bracket or one of \<open>+ - * / =\<close>, or
  whose primary expression begins with one of the keywords \<open>if\<close>, \<open>elif\<close>, \<open>while\<close>,
  \<open>for\<close>, \<open>return\<close>, \<open>yield\<close>, \<open>assert\<close>, \<open>del\<close> and a space, or whose fallback
  expression ends with a colon: the header match is discarded, and the output is the one
  line that inline composition makes of the whole line (the \<open>~ish\<close> rewriting, then the
  \<open>~welp\<close> rewriting).
\<close>

theorem complex_welp_header_is_inline:
  assumes header: "match_python_construct M (strip line) = Some (''welp'', groups)"
    and complex:
      "any_in [''('', '')'', ''+'', ''-'', ''*'', ''/'', ''='', ''['', '']''] (welp_primary groups)
       \<or> any_in [''('', '')'', ''+'', ''-'', ''*'', ''/'', ''='', ''['', '']'']
            (welp_fallback_expr groups)
       \<or> list_ex (\<lambda>kw. startswith (strip (welp_primary groups)) (kw @ '' ''))
            [''if'', ''elif'', ''while'', ''for'', ''return'', ''yield'', ''assert'', ''del'']
       \<or> endswith (strip (welp_fallback_expr groups)) '':''"
    and nonblank: "strip line \<noteq> []"
    and nocomment: "\<not> startswith (strip line) ''#''"
  shows "transform_line M line used =
     (case transform_ish_constructs M line used of
        (ish_transformed_line, used1) \<Rightarrow>
          (case transform_welp_constructs M ish_transformed_line used1 of
             (welp_transformed_line, used2) \<Rightarrow> (Inr [welp_transformed_line], used2)))"
proof -
  have "welp_is_complex groups"
    using complex by (simp add: welp_is_complex_def complex_ops_def inline_keywords_def Let_def)
  then have "header_match M (strip line) = None"
    using header by (simp add: header_match_def)
  then show ?thesis
    using nonblank nocomment
    by (auto simp: transform_line_def inline_transform_def Let_def split: prod.splits)
qed

theorem complex_welp_header_is_inline_witness:
  "transform_line example_matchers
     (''result = os.getcwd() ~welp '' @ [CHR 0x22] @ ''/tmp'' @ [CHR 0x22]) {}
   = (Inr [''result = welp_fallback(lambda: os.getcwd(), '' @ [CHR 0x22] @ ''/tmp''
             @ [CHR 0x22] @ '')''], {''welp_fallback''})"
  using complex_welp_header_is_inline
    [of example_matchers "''result = os.getcwd() ~welp '' @ [CHR 0x22] @ ''/tmp'' @ [CHR 0x22]"
        "[Some ''result = os.getcwd() '', Some ([CHR 0x22] @ ''/tmp'' @ [CHR 0x22])]" "{}"]
  by (simp add: example_defs str_defs welp_primary_def welp_fallback_expr_def truthy_def fmt_def
        transform_ish_constructs_def transform_welp_constructs_def welp_replacement_def
        group_def splice_def)

text \<open>
  Claim C3 as stated does not hold for every operator and every keyword. The test is
  for the nine characters and the eight keywords above only: the primary expression of
  \<open>x % 5~ish ~welp 0\<close> has an arithmetic operator and that of \<open>raise e ~welp 0\<close>
  begins with a control-flow keyword, and both lines keep their header. The first one
  shows in the output: the template receives \<open>5~ish\<close> as captured, where inline
  composition of the line rewrites it to \<open>ish_value(5)\<close>.
\<close>

theorem welp_header_outside_the_lists_is_kept:
  "match_python_construct example_matchers (strip ''x % 5~ish ~welp 0'')
     = Some (''welp'', [Some ''x % 5~ish '', Some ''0''])
   \<and> py_in ''%'' (welp_primary [Some ''x % 5~ish '', Some ''0''])
   \<and> header_match example_matchers (strip ''x % 5~ish ~welp 0'')
     = Some (''welp'', [Some ''x % 5~ish '', Some ''0''])
   \<and> transform_line example_matchers ''x % 5~ish ~welp 0'' {}
     = (Inr [''welp_fallback(lambda: x % 5~ish, 0)''], {''welp_fallback''})
   \<and> inline_transform example_matchers ''x % 5~ish ~welp 0'' {}
     = ([''welp_fallback(lambda: x % ish_value(5), 0)''], {''ish_value'', ''welp_fallback''})
   \<and> header_match example_matchers (strip ''raise e ~welp 0'')
     = Some (''welp'', [Some ''raise e '', Some ''0''])
   \<and> transform_line example_matchers ''raise e ~welp 0'' {}
     = (Inr [''welp_fallback(lambda: raise e, 0)''], {''welp_fallback''})"
  by (simp add: example_defs str_defs transform_line_def header_match_def construct_code_def
        inline_transform_def fmt_def truthy_def transform_ish_constructs_def
        transform_welp_constructs_def ish_replacement_def welp_replacement_def group_def
        splice_def welp_is_complex_def welp_primary_def welp_fallback_expr_def complex_ops_def
        inline_keywords_def insert_commute)

text \<open>
  The whitespace that \<open>strip\<close> removes from the two ends of a line. The output of a
  header line is \<open>original_line.replace(stripped, transformed_code)\<close>: the code between
  the leading and the trailing whitespace of the line.
\<close>

definition leading_ws :: "string \<Rightarrow> string" where
  "leading_ws line = takeWhile is_space line"

definition trailing_ws :: "string \<Rightarrow> string" where
  "trailing_ws line = rev (takeWhile is_space (rev line))"

lemma py_replace_no_match:
  assumes "old \<noteq> []" and "\<not> is_space (hd old)"
  shows "list_all is_space t \<Longrightarrow> py_replace t old new = t"
proof (induction t)
  case Nil
  then show ?case using assms by simp
next
  case (Cons c t)
  then have "\<not> startswith (c # t) old"
    using assms by (cases old) (auto simp: startswith_def)
  then show ?case using Cons assms by simp
qed

lemma py_replace_at_start:
  assumes "old \<noteq> []"
  shows "py_replace (old @ t) old new = new @ py_replace t old new"
proof (cases "old @ t")
  case Nil
  then show ?thesis using assms by simp
next
  case (Cons c cs)
  have "startswith (old @ t) old" by (simp add: startswith_def)
  then show ?thesis using Cons assms
    by (metis append_eq_conv_conj py_replace.simps(2))
qed

lemma py_replace_framed:
  assumes "old \<noteq> []" and "\<not> is_space (hd old)" and "list_all is_space t"
  shows "list_all is_space w \<Longrightarrow> py_replace (w @ old @ t) old new = w @ new @ t"
proof (induction w)
  case Nil
  then show ?case using assms by (simp add: py_replace_at_start py_replace_no_match)
next
  case (Cons c w)
  then have "\<not> startswith ((c # w) @ old @ t) old"
    using assms by (cases old) (auto simp: startswith_def)
  then show ?case using Cons assms by simp
qed

lemma line_decomposition:
  assumes "strip line \<noteq> []"
  shows "line = leading_ws line @ strip line @ trailing_ws line"
    and "\<not> is_space (hd (strip line))"
    and "list_all is_space (leading_ws line)" and "list_all is_space (trailing_ws line)"
proof -
  let ?r = "dropWhile is_space line"
  have r: "?r \<noteq> []"
  proof
    assume "?r = []"
    then have "strip line = rev (dropWhile is_space (rev []))"
      by (simp only: strip_def rstrip_def lstrip_def)
    then have "strip line = []" by simp
    with assms show False by simp
  qed
  then have hd: "\<not> is_space (hd ?r)" by (rule hd_dropWhile)
  have "hd ?r \<in> set (rev ?r)" using r by (simp del: set_dropWhileD)
  with hd have ex: "\<exists>x\<in>set (rev ?r). \<not> is_space x" by blast
  have rl: "rev line = rev ?r @ rev (takeWhile is_space line)"
    by (metis rev_append takeWhile_dropWhile_id)
  obtain x where "x \<in> set (rev ?r)" and "\<not> is_space x" using ex by blast
  then have "takeWhile is_space (rev ?r @ rev (takeWhile is_space line))
             = takeWhile is_space (rev ?r)"
    by (rule takeWhile_append1)
  then have tw: "takeWhile is_space (rev line) = takeWhile is_space (rev ?r)"
    by (simp only: rl)
  have "?r = rev (rev ?r)" by simp
  also have "rev ?r = takeWhile is_space (rev ?r) @ dropWhile is_space (rev ?r)" by simp
  finally have "?r = rev (dropWhile is_space (rev ?r)) @ rev (takeWhile is_space (rev ?r))"
    by (metis rev_append rev_rev_ident takeWhile_dropWhile_id)
  then have "?r = strip line @ trailing_ws line"
    by (simp add: strip_def rstrip_def lstrip_def trailing_ws_def tw)
  then show "line = leading_ws line @ strip line @ trailing_ws line"
    by (metis leading_ws_def takeWhile_dropWhile_id)
  have "strip line = rev (dropWhile is_space (rev ?r))"
    by (simp add: strip_def rstrip_def lstrip_def)
  moreover have "hd (rev (dropWhile is_space (rev ?r))) = hd ?r"
    using \<open>?r = rev (dropWhile is_space (rev ?r)) @ rev (takeWhile is_space (rev ?r))\<close> assms
      calculation by (metis hd_append2)
  ultimately show "\<not> is_space (hd (strip line))" using hd by simp
  show "list_all is_space (leading_ws line)"
    by (simp add: leading_ws_def list_all_iff) (meson set_takeWhileD)
  show "list_all is_space (trailing_ws line)"
    by (simp add: trailing_ws_def list_all_iff) (meson set_takeWhileD)
qed

lemma py_replace_stripped:
  assumes "strip line \<noteq> []"
  shows "py_replace line (strip line) code = leading_ws line @ code @ trailing_ws line"
proof -
  note d = line_decomposition[OF assms]
  have "py_replace (leading_ws line @ strip line @ trailing_ws line) (strip line) code
        = leading_ws line @ code @ trailing_ws line"
    using assms d(2) d(4) d(3) by (rule py_replace_framed)
  then show ?thesis using d(1) by simp
qed

text \<open>
  \<open>compose_group\<close> is the Inline Composer on one text: the \<open>~ish\<close> rewriting, then
  the \<open>~welp\<close> rewriting. \<open>compose_groups\<close> applies it to every group that took part
  in the match, from left to right.
\<close>

definition compose_group :: "matchers \<Rightarrow> string \<Rightarrow> helpers \<Rightarrow> string \<times> helpers" where
  "compose_group M g used =
     (case transform_ish_constructs M g used of
        (g1, used1) \<Rightarrow> transform_welp_constructs M g1 used1)"

fun compose_groups ::
  "matchers \<Rightarrow> string option list \<Rightarrow> helpers \<Rightarrow> string option list \<times> helpers" where
  "compose_groups M [] used = ([], used)"
| "compose_groups M (None # gs) used =
     (case compose_groups M gs used of (gs', used') \<Rightarrow> (None # gs', used'))"
| "compose_groups M (Some g # gs) used =
     (case compose_group M g used of
        (g', used1) \<Rightarrow>
          (case compose_groups M gs used1 of (gs', used2) \<Rightarrow> (Some g' # gs', used2)))"

lemma process_groups_composes:
  "key \<noteq> ''welp'' \<Longrightarrow>
   process_groups M key gs acc used =
     (acc @ fst (compose_groups M gs used), snd (compose_groups M gs used))"
proof (induction gs arbitrary: acc used)
  case Nil
  then show ?case by simp
next
  case (Cons g gs)
  show ?case
  proof (cases g)
    case None
    then show ?thesis using Cons by (simp split: prod.splits)
  next
    case (Some a)
    then show ?thesis using Cons by (simp add: compose_group_def split: prod.splits)
  qed
qed

lemma transform_line_header:
  assumes "header_match M (strip line) = Some (key, groups)"
    and "strip line \<noteq> []" and "\<not> startswith (strip line) ''#''"
  shows "transform_line M line used =
     (case (if key \<noteq> ''kinda_import'' \<and> key \<noteq> ''maybe_import''
            then process_groups M key groups [] used else (groups, used)) of
        (groups1, used1) \<Rightarrow>
          (case construct_code key groups1 (strip line) used1 of
             (Inl e, used2) \<Rightarrow> (Inl e, used2)
           | (Inr transformed_code, used2) \<Rightarrow>
               (Inr [leading_ws line @ transformed_code @ trailing_ws line], used2)))"
  using assms
  by (simp add: transform_line_def Let_def py_replace_stripped split: prod.splits sum.splits)

lemma startswith_hd:
  assumes "startswith s p" and "p \<noteq> []"
  shows "s \<noteq> []" and "hd s = hd p"
proof -
  have "s = p @ drop (length p) s"
    using assms(1) by (metis append_take_drop_id startswith_def)
  then show "s \<noteq> []" and "hd s = hd p"
    using assms(2) by (metis append_is_Nil_conv, metis hd_append2)
qed

text \<open>
  Claim C4, as amended. A line that the matcher recognises as the fuzzy declaration
  \<open>~kinda int name = init\<close> gives exactly one output line, with the leading and trailing
  whitespace of the input line: \<open>name' = kinda_int(init')\<close>, where \<open>name'\<close> and \<open>init'\<close>
  are the two groups after inline composition; and \<open>kinda_int\<close> is added to the used
  helpers, after those that the composition added. When neither group holds an inline
  \<open>~ish\<close> or \<open>~welp\<close> sub-expression the line is \<open>name = kinda_int(init)\<close> and
  \<open>kinda_int\<close> is the only helper added.
\<close>

theorem kinda_int_declaration:
  assumes header: "match_python_construct M (strip line) = Some (''kinda_int'', [Some name, Some init])"
    and form: "startswith (strip line) ''~kinda int''"
  shows "(\<exists>name' init' used'.
            compose_groups M [Some name, Some init] used = ([Some name', Some init'], used')
            \<and> transform_line M line used =
                (Inr [leading_ws line @ name' @ '' = kinda_int('' @ init' @ '')''
                        @ trailing_ws line], insert ''kinda_int'' used'))
       \<and> (find_ish_constructs M name = [] \<and> find_welp_constructs M name = []
            \<and> find_ish_constructs M init = [] \<and> find_welp_constructs M init = [] \<longrightarrow>
            transform_line M line used =
              (Inr [leading_ws line @ name @ '' = kinda_int('' @ init @ '')''
                      @ trailing_ws line], insert ''kinda_int'' used))"
proof -
  have nonblank: "strip line \<noteq> []" and nocomment: "\<not> startswith (strip line) ''#''"
    using startswith_hd[OF form] startswith_hd[of "strip line" "''#''"] by auto
  have hm: "header_match M (strip line) = Some (''kinda_int'', [Some name, Some init])"
    using header by (simp add: header_match_def)
  obtain name' u1 where n: "compose_group M name used = (name', u1)"
    by (cases "compose_group M name used")
  obtain init' u2 where i: "compose_group M init u1 = (init', u2)"
    by (cases "compose_group M init u1")
  have cg: "compose_groups M [Some name, Some init] used = ([Some name', Some init'], u2)"
    by (simp add: n i)
  have tl: "transform_line M line used =
      (Inr [leading_ws line @ name' @ '' = kinda_int('' @ init' @ '')'' @ trailing_ws line],
       insert ''kinda_int'' u2)"
    by (simp add: transform_line_header[OF hm nonblank nocomment] process_groups_composes n i
          construct_code_def fmt_def del: process_groups.simps)
  show ?thesis
  proof (intro conjI impI)
    show "\<exists>name' init' used'.
            compose_groups M [Some name, Some init] used = ([Some name', Some init'], used')
            \<and> transform_line M line used =
                (Inr [leading_ws line @ name' @ '' = kinda_int('' @ init' @ '')''
                        @ trailing_ws line], insert ''kinda_int'' used')"
      using cg tl by blast
  next
    assume plain: "find_ish_constructs M name = [] \<and> find_welp_constructs M name = []
            \<and> find_ish_constructs M init = [] \<and> find_welp_constructs M init = []"
    then have "name' = name" and "u1 = used"
      using n by (simp_all add: compose_group_def transform_ish_constructs_def
                    transform_welp_constructs_def)
    moreover from plain have "init' = init" and "u2 = u1"
      using i by (simp_all add: compose_group_def transform_ish_constructs_def
                    transform_welp_constructs_def)
    ultimately show "transform_line M line used =
              (Inr [leading_ws line @ name @ '' = kinda_int('' @ init @ '')''
                      @ trailing_ws line], insert ''kinda_int'' used)"
      using tl by simp
  qed
qed

theorem kinda_int_declaration_witness:
  "transform_line example_matchers ''~kinda int x ~= 42'' {}
     = (Inr [''x = kinda_int(42)''], {''kinda_int''})"
  using kinda_int_declaration[of example_matchers "''~kinda int x ~= 42''" "''x''" "''42''" "{}"]
  by (simp add: example_defs str_defs leading_ws_def trailing_ws_def)

text \<open>
  The declaration \<open>~kinda int x = 100~ish\<close> does not give \<open>x = kinda_int(100~ish)\<close>:
  the initialiser is rewritten first.
\<close>

theorem kinda_int_initializer_is_rewritten:
  "match_python_construct example_matchers (strip ''~kinda int x = 100~ish'')
     = Some (''kinda_int'', [Some ''x'', Some ''100~ish''])
   \<and> transform_line example_matchers ''~kinda int x = 100~ish'' {}
     = (Inr [''x = kinda_int(ish_value(100))''], {''kinda_int'', ''ish_value''})
   \<and> ''x = kinda_int(ish_value(100))'' \<noteq> ''x = kinda_int(100~ish)''"
  by (simp add: example_defs str_defs transform_line_def header_match_def
        transform_ish_constructs_def transform_welp_constructs_def ish_replacement_def
        group_def splice_def construct_code_def fmt_def insert_commute)

lemma header_match_plain:
  "match_python_construct M s = Some (key, groups) \<Longrightarrow> key \<noteq> [] \<Longrightarrow>
   \<not> (key = ''welp'' \<and> welp_is_complex groups) \<Longrightarrow>
   header_match M s = Some (key, groups)"
  by (simp add: header_match_def)

text \<open>
  Claim C6, as amended. On a line that the matcher recognises as a construct header
  (and that is neither blank nor a comment):
  \<^item> for \<open>kinda_import\<close> and \<open>maybe_import\<close> the captured groups reach the template
    unchanged;
  \<^item> for every other construct but \<open>welp\<close>, each captured group that took part in the
    match is replaced by its inline composition (the \<open>~ish\<close> rewriting, then the
    \<open>~welp\<close> rewriting), from left to right, before the template is filled;
  \<^item> for a \<open>welp\<close> header that does not look complex, the fallback group is passed
    through the \<open>~ish\<close> rewriting only, and the primary group reaches the template as
    the pattern captured it;
  \<^item> for a \<open>welp\<close> header that looks complex, the header and its groups are dropped, no
    template is filled, and the raw line is passed through inline composition.
\<close>

theorem header_groups_composed_except_imports:
  assumes header: "match_python_construct M (strip line) = Some (key, groups)"
    and key: "key \<noteq> []"
    and nonblank: "strip line \<noteq> []"
    and nocomment: "\<not> startswith (strip line) ''#''"
  shows "(key = ''kinda_import'' \<or> key = ''maybe_import'' \<longrightarrow>
            transform_line M line used =
              (case construct_code key groups (strip line) used of
                 (Inl e, used1) \<Rightarrow> (Inl e, used1)
               | (Inr code, used1) \<Rightarrow>
                   (Inr [leading_ws line @ code @ trailing_ws line], used1)))
       \<and> (key \<noteq> ''kinda_import'' \<and> key \<noteq> ''maybe_import'' \<and> key \<noteq> ''welp'' \<longrightarrow>
            transform_line M line used =
              (case compose_groups M groups used of
                 (groups1, used1) \<Rightarrow>
                   (case construct_code key groups1 (strip line) used1 of
                      (Inl e, used2) \<Rightarrow> (Inl e, used2)
                    | (Inr code, used2) \<Rightarrow>
                        (Inr [leading_ws line @ code @ trailing_ws line], used2))))
       \<and> (key = ''welp'' \<and> \<not> welp_is_complex groups
            \<and> groups = [Some primary, Some fallback] \<longrightarrow>
            transform_line M line used =
              (case transform_ish_constructs M fallback used of
                 (fallback1, used1) \<Rightarrow>
                   (case construct_code ''welp'' [Some primary, Some fallback1] (strip line)
                           used1 of
                      (Inl e, used2) \<Rightarrow> (Inl e, used2)
                    | (Inr code, used2) \<Rightarrow>
                        (Inr [leading_ws line @ code @ trailing_ws line], used2))))
       \<and> (key = ''welp'' \<and> welp_is_complex groups \<longrightarrow>
            transform_line M line used =
              (case transform_ish_constructs M line used of
                 (ish_transformed_line, used1) \<Rightarrow>
                   (case transform_welp_constructs M ish_transformed_line used1 of
                      (welp_transformed_line, used2) \<Rightarrow>
                        (Inr [welp_transformed_line], used2))))"
proof (intro conjI impI)
  assume imp: "key = ''kinda_import'' \<or> key = ''maybe_import''"
  then have "header_match M (strip line) = Some (key, groups)"
    using header by (intro header_match_plain) auto
  from transform_line_header[OF this nonblank nocomment] imp
  show "transform_line M line used =
      (case construct_code key groups (strip line) used of
         (Inl e, used1) \<Rightarrow> (Inl e, used1)
       | (Inr code, used1) \<Rightarrow> (Inr [leading_ws line @ code @ trailing_ws line], used1))"
    by auto
next
  assume other: "key \<noteq> ''kinda_import'' \<and> key \<noteq> ''maybe_import'' \<and> key \<noteq> ''welp''"
  then have "header_match M (strip line) = Some (key, groups)"
    using header key by (intro header_match_plain) auto
  from transform_line_header[OF this nonblank nocomment] other
  show "transform_line M line used =
      (case compose_groups M groups used of
         (groups1, used1) \<Rightarrow>
           (case construct_code key groups1 (strip line) used1 of
              (Inl e, used2) \<Rightarrow> (Inl e, used2)
            | (Inr code, used2) \<Rightarrow>
                (Inr [leading_ws line @ code @ trailing_ws line], used2)))"
    by (simp add: process_groups_composes split: prod.splits)
next
  assume welp: "key = ''welp'' \<and> \<not> welp_is_complex groups
      \<and> groups = [Some primary, Some fallback]"
  then have "header_match M (strip line) = Some (''welp'', [Some primary, Some fallback])"
    using header by (intro header_match_plain) auto
  from transform_line_header[OF this nonblank nocomment]
  show "transform_line M line used =
      (case transform_ish_constructs M fallback used of
         (fallback1, used1) \<Rightarrow>
           (case construct_code ''welp'' [Some primary, Some fallback1] (strip line) used1 of
              (Inl e, used2) \<Rightarrow> (Inl e, used2)
            | (Inr code, used2) \<Rightarrow>
                (Inr [leading_ws line @ code @ trailing_ws line], used2)))"
    by (simp split: prod.splits)
next
  assume "key = ''welp'' \<and> welp_is_complex groups"
  then have "header_match M (strip line) = None"
    using header by (simp add: header_match_def)
  then show "transform_line M line used =
      (case transform_ish_constructs M line used of
         (ish_transformed_line, used1) \<Rightarrow>
           (case transform_welp_constructs M ish_transformed_line used1 of
              (welp_transformed_line, used2) \<Rightarrow> (Inr [welp_transformed_line], used2)))"
    using nonblank nocomment
    by (auto simp: transform_line_def inline_transform_def Let_def split: prod.splits)
qed

theorem header_groups_composed_except_imports_witness:
  "transform_line example_matchers ''~kinda import os'' {}
     = (Inr [''os = kinda_import('' @ [CHR 0x27] @ ''os'' @ [CHR 0x27] @ '')''],
        {''kinda_import''})
   \<and> transform_line example_matchers ''value ~= 100~ish'' {}
     = (Inr [''value = fuzzy_assign('' @ [CHR 0x27] @ ''value'' @ [CHR 0x27]
               @ '', ish_value(100))''], {''fuzzy_assign'', ''ish_value''})
   \<and> transform_line example_matchers ''x ~welp 100~ish'' {}
     = (Inr [''welp_fallback(lambda: x, ish_value(100))''], {''welp_fallback'', ''ish_value''})
   \<and> transform_line example_matchers
        (''result = os.getcwd() ~welp '' @ [CHR 0x22] @ ''/tmp'' @ [CHR 0x22]) {}
     = (Inr [''result = welp_fallback(lambda: os.getcwd(), '' @ [CHR 0x22] @ ''/tmp''
               @ [CHR 0x22] @ '')''], {''welp_fallback''})"
  using header_groups_composed_except_imports
          [of example_matchers "''~kinda import os''" "''kinda_import''" "[Some ''os'', None]"
              "{}" "[]" "[]"]
        header_groups_composed_except_imports
          [of example_matchers "''value ~= 100~ish''" "''fuzzy_reassign''"
              "[Some ''value'', Some ''100~ish'']" "{}" "[]" "[]"]
        header_groups_composed_except_imports
          [of example_matchers "''x ~welp 100~ish''" "''welp''"
              "[Some ''x '', Some ''100~ish'']" "{}" "''x ''" "''100~ish''"]
        header_groups_composed_except_imports
          [of example_matchers
              "''result = os.getcwd() ~welp '' @ [CHR 0x22] @ ''/tmp'' @ [CHR 0x22]" "''welp''"
              "[Some ''result = os.getcwd() '', Some ([CHR 0x22] @ ''/tmp'' @ [CHR 0x22])]"
              "{}" "[]" "[]"]
  by (simp add: example_defs str_defs leading_ws_def trailing_ws_def construct_code_def fmt_def
        truthy_def last_component_def compose_group_def transform_ish_constructs_def
        transform_welp_constructs_def ish_replacement_def welp_replacement_def group_def
        splice_def welp_is_complex_def welp_primary_def welp_fallback_expr_def complex_ops_def
        inline_keywords_def insert_commute)

text \<open>
  Claim C6 as stated does not hold for a \<open>welp\<close> header: on \<open>x > 42~ish ~welp 0\<close>
  inline composition would rewrite the primary group to \<open>x > ish_value(42)\<close>, and the
  template receives \<open>x > 42~ish\<close>.
\<close>

theorem welp_primary_group_not_composed:
  "match_python_construct example_matchers (strip ''x > 42~ish ~welp 0'')
     = Some (''welp'', [Some ''x > 42~ish '', Some ''0''])
   \<and> compose_group example_matchers ''x > 42~ish '' {}
     = (''x > ish_value(42) '', {''ish_value''})
   \<and> transform_line example_matchers ''x > 42~ish ~welp 0'' {}
     = (Inr [''welp_fallback(lambda: x > 42~ish, 0)''], {''welp_fallback''})"
  by (simp add: example_defs str_defs transform_line_def header_match_def construct_code_def
        fmt_def truthy_def compose_group_def transform_ish_constructs_def
        transform_welp_constructs_def ish_replacement_def group_def splice_def
        welp_is_complex_def welp_primary_def welp_fallback_expr_def complex_ops_def
        inline_keywords_def)

section \<open>The used helpers only grow\<close>

text \<open>
  \<open>adds_only f\<close>: the function \<open>f\<close> of the set of used helpers only adds to the set.
  Its result and the helpers it adds, finitely many, are the same whatever the set it
  starts from.
\<close>

definition adds_only :: "(helpers \<Rightarrow> 'a \<times> helpers) \<Rightarrow> bool" where
  "adds_only f = (\<exists>r d. finite d \<and> (\<forall>used. f used = (r, used \<union> d)))"

lemma adds_onlyI: "finite d \<Longrightarrow> (\<And>used. f used = (r, used \<union> d)) \<Longrightarrow> adds_only f"
  unfolding adds_only_def by blast

lemma adds_only_from_result:
  "finite (snd (f {})) \<Longrightarrow> (\<And>used. f used = (fst (f {}), used \<union> snd (f {})))
   \<Longrightarrow> adds_only f"
  by (rule adds_onlyI)


lemma adds_only_finite:
  assumes "adds_only f"
  shows "finite (snd (f {}))"
proof -
  from assms obtain r d where "finite d" and f: "\<forall>used. f used = (r, used \<union> d)"
    unfolding adds_only_def by blast
  then show ?thesis by simp
qed

lemma adds_only_return: "adds_only (\<lambda>used. (r, used))"
  by (rule adds_onlyI[of "{}" _ r]) simp_all

lemma adds_only_insert: "adds_only (\<lambda>used. (r, insert h used))"
  by (rule adds_onlyI[of "{h}" _ r]) simp_all

lemma adds_only_bind:
  assumes "adds_only f" and "\<And>r. adds_only (g r)"
  shows "adds_only (\<lambda>used. case f used of (r, used1) \<Rightarrow> g r used1)"
proof -
  from assms(1) obtain r1 d1 where "finite d1" and f: "\<forall>used. f used = (r1, used \<union> d1)"
    unfolding adds_only_def by blast
  from assms(2)[of r1] obtain r2 d2 where "finite d2"
    and g: "\<forall>used. g r1 used = (r2, used \<union> d2)"
    unfolding adds_only_def by blast
  show ?thesis
    by (rule adds_onlyI[of "d1 \<union> d2" _ r2])
       (simp_all add: f g Un_assoc \<open>finite d1\<close> \<open>finite d2\<close>)
qed

lemma adds_only_after_insert:
  assumes "adds_only f"
  shows "adds_only (\<lambda>used. f (insert h used))"
proof -
  from assms obtain r d where "finite d" and f: "\<forall>used. f used = (r, used \<union> d)"
    unfolding adds_only_def by blast
  show ?thesis
    by (rule adds_onlyI[of "insert h d" _ r]) (simp_all add: f \<open>finite d\<close>)
qed

lemma adds_only_ish_replacement: "adds_only (ish_replacement line c)"
proof (rule adds_only_from_result)
  obtain ct m s e where c: "c = (ct, m, s, e)" by (cases c)
  show "finite (snd (ish_replacement line c {}))"
    unfolding c ish_replacement_def Let_def prod.case
    by (simp split: option.splits)
  fix used
  show "ish_replacement line c used
        = (fst (ish_replacement line c {}), used \<union> snd (ish_replacement line c {}))"
    unfolding c ish_replacement_def Let_def prod.case
    by (simp split: option.splits)
qed

lemma adds_only_ish_loop: "adds_only (ish_loop line cs t)"
proof (induction cs arbitrary: t)
  case Nil
  show ?case by (simp add: adds_only_return)
next
  case (Cons c cs)
  have "adds_only (\<lambda>used. case ish_replacement line c used of
          (r, used') \<Rightarrow>
            (case r of None \<Rightarrow> ish_loop line cs t
             | Some replacement \<Rightarrow>
                 ish_loop line cs (splice t (fst (snd (snd c))) (snd (snd (snd c))) replacement))
              used')"
    by (rule adds_only_bind[OF adds_only_ish_replacement]) (auto split: option.splits intro: Cons)
  moreover have "ish_loop line (c # cs) t = (\<lambda>used. case ish_replacement line c used of
          (r, used') \<Rightarrow>
            (case r of None \<Rightarrow> ish_loop line cs t
             | Some replacement \<Rightarrow>
                 ish_loop line cs (splice t (fst (snd (snd c))) (snd (snd (snd c))) replacement))
              used')"
    by (auto split: prod.splits option.splits)
  ultimately show ?case by simp
qed

lemma adds_only_transform_ish: "adds_only (transform_ish_constructs M line)"
proof -
  have "transform_ish_constructs M line =
        (if find_ish_constructs M line = [] then (\<lambda>used. (line, used))
         else ish_loop line (rev (find_ish_constructs M line)) line)"
    by (auto simp: transform_ish_constructs_def Let_def)
  then show ?thesis by (simp add: adds_only_return adds_only_ish_loop)
qed

lemma adds_only_welp_replacement: "adds_only (welp_replacement M c)"
proof -
  obtain ct m s e where c: "c = (ct, m, s, e)" by (cases c)
  show ?thesis
  proof (cases "ct = ''welp''")
    case False
    then have "welp_replacement M c = (\<lambda>used. (None, used))"
      by (auto simp: c welp_replacement_def)
    then show ?thesis by (simp add: adds_only_return)
  next
    case True
    show ?thesis
    proof (cases "group m 1")
      case None
      then have "welp_replacement M c = (\<lambda>used. (None, insert ''welp_fallback'' used))"
        using True by (auto simp: c welp_replacement_def)
      then show ?thesis by (simp add: adds_only_insert)
    next
      case g1: (Some g1)
      show ?thesis
      proof (cases "group m 2")
        case None
        then have "welp_replacement M c = (\<lambda>used. (None, insert ''welp_fallback'' used))"
          using True g1 by (auto simp: c welp_replacement_def)
        then show ?thesis by (simp add: adds_only_insert)
      next
        case g2: (Some g2)
        let ?inner = "\<lambda>primary_expr used1.
            case transform_ish_constructs M (strip g2) used1 of
              (fallback_value, used2) \<Rightarrow>
                (Some (''welp_fallback(lambda: '' @ primary_expr @ '', ''
                        @ fallback_value @ '')''), used2)"
        have inner: "adds_only (?inner p)" for p
          by (rule adds_only_bind[OF adds_only_transform_ish]) (rule adds_only_return)
        have "adds_only (\<lambda>used. case transform_ish_constructs M (strip g1) used of
                 (primary_expr, used1) \<Rightarrow> ?inner primary_expr used1)"
          by (rule adds_only_bind[OF adds_only_transform_ish]) (rule inner)
        then have "adds_only (\<lambda>used.
              case transform_ish_constructs M (strip g1) (insert ''welp_fallback'' used) of
                 (primary_expr, used1) \<Rightarrow> ?inner primary_expr used1)"
          by (rule adds_only_after_insert)
        moreover have "welp_replacement M c = (\<lambda>used.
              case transform_ish_constructs M (strip g1) (insert ''welp_fallback'' used) of
                 (primary_expr, used1) \<Rightarrow> ?inner primary_expr used1)"
          using True g1 g2 by (auto simp: c welp_replacement_def)
        ultimately show ?thesis by simp
      qed
    qed
  qed
qed

lemma adds_only_welp_loop: "adds_only (welp_loop M cs t)"
proof (induction cs arbitrary: t)
  case Nil
  show ?case by (simp add: adds_only_return)
next
  case (Cons c cs)
  have "adds_only (\<lambda>used. case welp_replacement M c used of
          (r, used') \<Rightarrow>
            (case r of None \<Rightarrow> welp_loop M cs t
             | Some replacement \<Rightarrow>
                 welp_loop M cs (splice t (fst (snd (snd c))) (snd (snd (snd c))) replacement))
              used')"
    by (rule adds_only_bind[OF adds_only_welp_replacement]) (auto split: option.splits intro: Cons)
  moreover have "welp_loop M (c # cs) t = (\<lambda>used. case welp_replacement M c used of
          (r, used') \<Rightarrow>
            (case r of None \<Rightarrow> welp_loop M cs t
             | Some replacement \<Rightarrow>
                 welp_loop M cs (splice t (fst (snd (snd c))) (snd (snd (snd c))) replacement))
              used')"
    by (auto split: prod.splits option.splits)
  ultimately show ?case by simp
qed

lemma adds_only_transform_welp: "adds_only (transform_welp_constructs M line)"
proof -
  have "transform_welp_constructs M line =
        (if find_welp_constructs M line = [] then (\<lambda>used. (line, used))
         else welp_loop M (rev (find_welp_constructs M line)) line)"
    by (auto simp: transform_welp_constructs_def Let_def)
  then show ?thesis by (simp add: adds_only_return adds_only_welp_loop)
qed

lemma adds_only_compose_group: "adds_only (compose_group M g)"
proof -
  have "compose_group M g = (\<lambda>used. case transform_ish_constructs M g used of
           (g1, used1) \<Rightarrow> transform_welp_constructs M g1 used1)"
    by (auto simp: compose_group_def)
  moreover have "adds_only (\<lambda>used. case transform_ish_constructs M g used of
           (g1, used1) \<Rightarrow> transform_welp_constructs M g1 used1)"
    by (rule adds_only_bind[OF adds_only_transform_ish]) (rule adds_only_transform_welp)
  ultimately show ?thesis by simp
qed

lemma adds_only_process_groups: "adds_only (process_groups M key gs acc)"
proof (induction gs arbitrary: acc)
  case Nil
  show ?case by (simp add: adds_only_return)
next
  case (Cons g gs)
  show ?case
  proof (cases g)
    case None
    then have "process_groups M key (g # gs) acc = process_groups M key gs (acc @ [None])"
      by auto
    then show ?thesis by (simp add: Cons)
  next
    case (Some grp)
    show ?thesis
    proof (cases "key = ''welp''")
      case True
      show ?thesis
      proof (cases "length acc = 1")
        case one: True
        have "adds_only (\<lambda>used. case transform_ish_constructs M grp used of
                (t, used1) \<Rightarrow> process_groups M key gs (acc @ [Some t]) used1)"
          by (rule adds_only_bind[OF adds_only_transform_ish]) (rule Cons)
        moreover have "process_groups M key (g # gs) acc =
              (\<lambda>used. case transform_ish_constructs M grp used of
                (t, used1) \<Rightarrow> process_groups M key gs (acc @ [Some t]) used1)"
          using Some True one by auto
        ultimately show ?thesis by simp
      next
        case False
        then have "process_groups M key (g # gs) acc
                   = process_groups M key gs (acc @ [Some grp])"
          using Some True by auto
        then show ?thesis by (simp add: Cons)
      qed
    next
      case False
      have "adds_only (\<lambda>used. case compose_group M grp used of
              (t, used1) \<Rightarrow> process_groups M key gs (acc @ [Some t]) used1)"
        by (rule adds_only_bind[OF adds_only_compose_group]) (rule Cons)
      moreover have "process_groups M key (g # gs) acc =
            (\<lambda>used. case compose_group M grp used of
              (t, used1) \<Rightarrow> process_groups M key gs (acc @ [Some t]) used1)"
        using Some False by (auto simp: compose_group_def split: prod.splits)
      ultimately show ?thesis by simp
    qed
  qed
qed

lemma adds_only_construct_code: "adds_only (construct_code key groups stripped)"
proof (rule adds_only_from_result)
  show "finite (snd (construct_code key groups stripped {}))"
    unfolding construct_code_def Let_def
    by (auto split: option.splits)
  fix used
  show "construct_code key groups stripped used
        = (fst (construct_code key groups stripped {}),
           used \<union> snd (construct_code key groups stripped {}))"
    unfolding construct_code_def Let_def
    by (auto split: option.splits)
qed

lemma adds_only_inline_transform: "adds_only (inline_transform M line)"
proof -
  have "adds_only (\<lambda>used. case compose_group M line used of
          (l2, used2) \<Rightarrow> (if l2 \<noteq> line then [l2] else [line], used2))"
    by (rule adds_only_bind[OF adds_only_compose_group]) (rule adds_only_return)
  moreover have "inline_transform M line = (\<lambda>used. case compose_group M line used of
          (l2, used2) \<Rightarrow> (if l2 \<noteq> line then [l2] else [line], used2))"
    by (auto simp: inline_transform_def compose_group_def split: prod.splits)
  ultimately show ?thesis by simp
qed

lemma adds_only_transform_line: "adds_only (transform_line M line)"
proof (cases "strip line = [] \<or> startswith (strip line) ''#''")
  case True
  show ?thesis
  proof (cases "strip line = []")
    case blank: True
    then have "transform_line M line = (\<lambda>used. (Inr [[]], used))"
      by (auto simp: transform_line_def Let_def)
    then show ?thesis by (simp add: adds_only_return)
  next
    case False
    then have "transform_line M line = (\<lambda>used. (Inr [line], used))"
      using True by (auto simp: transform_line_def Let_def)
    then show ?thesis by (simp add: adds_only_return)
  qed
next
  case False
  show ?thesis
  proof (cases "header_match M (strip line)")
    case None
    have "adds_only (\<lambda>used. case inline_transform M line used of
            (ls, used1) \<Rightarrow> (Inr ls :: py_error + string list, used1))"
      by (rule adds_only_bind[OF adds_only_inline_transform]) (rule adds_only_return)
    moreover have "transform_line M line = (\<lambda>used. case inline_transform M line used of
            (ls, used1) \<Rightarrow> (Inr ls, used1))"
      using False None by (auto simp: transform_line_def Let_def)
    ultimately show ?thesis by simp
  next
    case (Some kg)
    obtain key groups where kg: "kg = (key, groups)" by (cases kg)
    let ?finish = "\<lambda>groups1 used1.
        case construct_code key groups1 (strip line) used1 of
          (r, used2) \<Rightarrow>
            (case r of Inl e \<Rightarrow> Inl e
             | Inr transformed_code \<Rightarrow> Inr [py_replace line (strip line) transformed_code],
             used2)"
    have finish: "adds_only (?finish gs)" for gs
      by (rule adds_only_bind[OF adds_only_construct_code]) (rule adds_only_return)
    have "adds_only (\<lambda>used.
            case (if key \<noteq> ''kinda_import'' \<and> key \<noteq> ''maybe_import''
                  then process_groups M key groups [] used else (groups, used)) of
              (groups1, used1) \<Rightarrow> ?finish groups1 used1)"
    proof (cases "key \<noteq> ''kinda_import'' \<and> key \<noteq> ''maybe_import''")
      case True
      have "adds_only (\<lambda>used. case process_groups M key groups [] used of
              (groups1, used1) \<Rightarrow> ?finish groups1 used1)"
        by (rule adds_only_bind[OF adds_only_process_groups]) (rule finish)
      then show ?thesis using True by simp
    next
      case False
      then have c: "(key \<noteq> ''kinda_import'' \<and> key \<noteq> ''maybe_import'') = False" by simp
      show ?thesis using finish[of groups] by (simp only: c if_False prod.case)
    qed
    moreover have "transform_line M line = (\<lambda>used.
            case (if key \<noteq> ''kinda_import'' \<and> key \<noteq> ''maybe_import''
                  then process_groups M key groups [] used else (groups, used)) of
              (groups1, used1) \<Rightarrow> ?finish groups1 used1)"
      using False Some kg
      by (auto simp: transform_line_def Let_def split: prod.splits sum.splits)
    ultimately show ?thesis by simp
  qed
qed

lemma adds_only_bind_result:
  assumes "adds_only f" and "\<And>r. r = fst (f {}) \<Longrightarrow> adds_only (g r)"
  shows "adds_only (\<lambda>used. case f used of (r, used1) \<Rightarrow> g r used1)"
proof -
  from assms(1) obtain r1 d1 where "finite d1" and f: "\<forall>used. f used = (r1, used \<union> d1)"
    unfolding adds_only_def by blast
  then have "r1 = fst (f {})" by simp
  from assms(2)[OF this] obtain r2 d2 where "finite d2"
    and g: "\<forall>used. g r1 used = (r2, used \<union> d2)"
    unfolding adds_only_def by blast
  show ?thesis
    by (rule adds_onlyI[of "d1 \<union> d2" _ r2])
       (simp_all add: f g Un_assoc \<open>finite d1\<close> \<open>finite d2\<close>)
qed

lemma adds_only_indented_block:
  "adds_only (process_python_indented_block M lines i out cl)"
proof (induction "length lines - i" arbitrary: i out rule: less_induct)
  case less
  let ?line = "lines ! i"
  note unfold = process_python_indented_block.simps[of M lines i out cl]
  show ?case
  proof (cases "i < length lines")
    case False
    then have "process_python_indented_block M lines i out cl = (\<lambda>used. (Inr (i, out), used))"
      by (intro ext) (simp add: unfold)
    then show ?thesis by (simp add: adds_only_return)
  next
    case True
    then have smaller: "length lines - (i + 1) < length lines - i" by simp
    have ih: "adds_only (process_python_indented_block M lines (Suc i) out' cl)" for out'
      using less[OF smaller] by simp
    show ?thesis
    proof (cases "strip ?line = []")
      case blank: True
      have "process_python_indented_block M lines i out cl
            = process_python_indented_block M lines (i + 1) (out @ [?line]) cl"
        using True blank by (intro ext) (simp add: unfold Let_def)
      then show ?thesis using ih by simp
    next
      case nonblank: False
      show ?thesis
      proof (cases "indent_width ?line \<le> indent_width cl")
        case True
        then have "process_python_indented_block M lines i out cl
                   = (\<lambda>used. (Inr (i, out), used))"
          using \<open>i < length lines\<close> nonblank by (intro ext) (simp add: unfold Let_def)
        then show ?thesis by (simp add: adds_only_return)
      next
        case deeper: False
        let ?g = "\<lambda>r. case r of
            Inl e \<Rightarrow> (\<lambda>used1. (Inl (KindaParseError (ErrorInPythonIndentedBlock e) (i + 1) ?line),
                                 used1))
          | Inr transformed \<Rightarrow>
              process_python_indented_block M lines (i + 1) (out @ transformed) cl"
        have "adds_only (\<lambda>used. case transform_line M ?line used of (r, used1) \<Rightarrow> ?g r used1)"
        proof (rule adds_only_bind[OF adds_only_transform_line])
          fix r show "adds_only (?g r)"
            by (cases r) (simp_all add: adds_only_return ih)
        qed
        moreover have "process_python_indented_block M lines i out cl
              = (\<lambda>used. case transform_line M ?line used of (r, used1) \<Rightarrow> ?g r used1)"
          using True nonblank deeper
          by (intro ext) (simp add: unfold Let_def split: prod.splits sum.splits)
        ultimately show ?thesis by simp
      qed
    qed
  qed
qed

lemma adds_only_conditional_block_loop:
  "adds_only (conditional_block_loop M lines i bc out indent)"
proof (induction "length lines - i" arbitrary: i bc out indent rule: less_induct)
  case less
  let ?line = "lines ! i"
  let ?s = "strip ?line"
  define bc1 where "bc1 = (if ?s = ''}'' then bc - 1 else bc)"
  define bc2 where "bc2 = (if endswith ?s ''{'' then bc1 + 1 else bc1)"
  let ?err = "\<lambda>e. (Inl (KindaParseError (ErrorInConditionalBlock e) (i + 1) ?line)
                      :: py_error + nat \<times> string list)"
  note unfold =
    conditional_block_loop.simps[of M lines i bc out indent, unfolded Let_def,
      folded bc1_def, folded bc2_def]
  show ?case
  proof (cases "i < length lines")
    case False
    then have "conditional_block_loop M lines i bc out indent = (\<lambda>used. (Inr (i, out), used))"
      by (intro ext) (auto simp: unfold)
    then show ?thesis by (simp add: adds_only_return)
  next
    case True
    then have smaller: "length lines - (i + 1) < length lines - i" by simp
    have ih: "adds_only (conditional_block_loop M lines (Suc i) bc' out' indent')"
      for bc' out' indent'
      using less[OF smaller] by simp
    show ?thesis
    proof (cases "?s = ''}'' \<and> bc1 = 0")
      case A: True
      then have "conditional_block_loop M lines i bc out indent
                 = (\<lambda>used. (Inr (i + 1, out), used))"
        using True by (intro ext) (auto simp: unfold)
      then show ?thesis by (simp add: adds_only_return)
    next
      case nA: False
      show ?thesis
      proof (cases "?s = [] \<or> startswith ?s ''#''")
        case B: True
        have "conditional_block_loop M lines i bc out indent
              = conditional_block_loop M lines (i + 1) bc1 (out @ [indent @ ?line]) indent"
          using True nA B by (intro ext) (auto simp: unfold)
        then show ?thesis using ih by simp
      next
        case nB: False
        show ?thesis
        proof (cases "startswith ?s ''~sometimes'' \<or> startswith ?s ''~maybe''")
          case C: True
          show ?thesis
          proof (cases "validate_conditional_syntax ?s (i + 1)")
            case (Inl e)
            then have "conditional_block_loop M lines i bc out indent
                       = (\<lambda>used. (?err e, used))"
              using True nA nB C by (intro ext) (auto simp: unfold)
            then show ?thesis by (simp add: adds_only_return)
          next
            case (Inr ok)
            show ?thesis
            proof (cases ok)
              case False
              have "conditional_block_loop M lines i bc out indent
                    = conditional_block_loop M lines (i + 1) bc1 out indent"
                using True nA nB C Inr False by (intro ext) (auto simp: unfold)
              then show ?thesis using ih by simp
            next
              case ok: True
              let ?after = "\<lambda>r2. case r2 of
                  Inl e \<Rightarrow> (\<lambda>used2. (?err e, used2))
                | Inr p \<Rightarrow> conditional_block_loop M lines (fst p) bc1 (snd p) indent"
              let ?nested = "\<lambda>transformed_nested.
                  conditional_block_loop M lines (i + 1) 1
                    (out @ map (\<lambda>l. indent @ l) transformed_nested) (indent @ ''    '')"
              let ?g = "\<lambda>r. case r of
                  Inl e \<Rightarrow> (\<lambda>used1. (?err e, used1))
                | Inr transformed_nested \<Rightarrow>
                    (\<lambda>used1. case ?nested transformed_nested used1 of
                       (r2, used2) \<Rightarrow> ?after r2 used2)"
              have after: "adds_only (?after r2)" if "r2 = fst (?nested tn {})" for r2 tn
              proof (cases r2)
                case (Inl e)
                then show ?thesis by (simp add: adds_only_return)
              next
                case (Inr p)
                then have "?nested tn {} = (Inr (fst p, snd p), snd (?nested tn {}))"
                  using that by (metis prod.collapse)
                then have "i + 1 \<le> fst p" by (rule conditional_block_loop_advances)
                then have "length lines - fst p < length lines - i" using True by simp
                then show ?thesis using Inr less by simp
              qed
              have "adds_only (\<lambda>used. case transform_line M ?line used of
                      (r, used1) \<Rightarrow> ?g r used1)"
              proof (rule adds_only_bind[OF adds_only_transform_line])
                fix r show "adds_only (?g r)"
                proof (cases r)
                  case (Inl e)
                  then show ?thesis by (simp add: adds_only_return)
                next
                  case (Inr tn)
                  have "adds_only (\<lambda>used1. case ?nested tn used1 of
                          (r2, used2) \<Rightarrow> ?after r2 used2)"
                    by (rule adds_only_bind_result[OF less[OF smaller]]) (rule after)
                  then show ?thesis unfolding Inr by (simp only: sum.case)
                qed
              qed
              moreover have "conditional_block_loop M lines i bc out indent
                    = (\<lambda>used. case transform_line M ?line used of (r, used1) \<Rightarrow> ?g r used1)"
                using True nA nB C Inr ok
                by (intro ext) (auto simp: unfold split: prod.splits sum.splits)
              ultimately show ?thesis by simp
            qed
          qed
        next
          case nC: False
          let ?g = "\<lambda>r. case r of
              Inl e \<Rightarrow> (\<lambda>used1. (?err e, used1))
            | Inr transformed_block \<Rightarrow>
                conditional_block_loop M lines (i + 1) bc2
                  (out @ map (\<lambda>l. indent @ l) transformed_block) indent"
          have "adds_only (\<lambda>used. case transform_line M ?line used of (r, used1) \<Rightarrow> ?g r used1)"
          proof (rule adds_only_bind[OF adds_only_transform_line])
            fix r show "adds_only (?g r)"
              by (cases r) (simp_all add: adds_only_return ih)
          qed
          moreover have "conditional_block_loop M lines i bc out indent
                = (\<lambda>used. case transform_line M ?line used of (r, used1) \<Rightarrow> ?g r used1)"
            using True nA nB nC
            by (intro ext) (auto simp: unfold split: prod.splits sum.splits)
          ultimately show ?thesis by simp
        qed
      qed
    qed
  qed
qed

lemma block_processor_advances:
  assumes "(if b then process_conditional_block M lines (i + 1) out ind used
            else process_python_indented_block M lines (i + 1) out cl used)
           = (Inr (i2, out2), used2)"
  shows "i + 1 \<le> i2"
  using assms conditional_block_loop_advances process_python_indented_block_advances
  by (auto simp: process_conditional_block_def split: if_splits)

lemma adds_only_transform_loop: "adds_only (transform_loop M lines i out)"
proof (induction "length lines - i" arbitrary: i out rule: less_induct)
  case less
  let ?line = "lines ! i"
  let ?s = "strip ?line"
  let ?err = "\<lambda>e. (Inl (KindaParseError (TransformFailed e) (i + 1) ?line)
                      :: py_error + string list)"
  note unfold = transform_loop.simps[of M lines i out, unfolded Let_def]
  show ?case
  proof (cases "i < length lines")
    case False
    then have "transform_loop M lines i out = (\<lambda>used. (Inr out, used))"
      by (intro ext) (simp add: unfold)
    then show ?thesis by (simp add: adds_only_return)
  next
    case True
    then have smaller: "length lines - (i + 1) < length lines - i" by simp
    have ih: "adds_only (transform_loop M lines (Suc i) out')" for out'
      using less[OF smaller] by simp
    show ?thesis
    proof (cases "startswith ?s ''~sometimes'' \<or> startswith ?s ''~maybe''")
      case C: True
      show ?thesis
      proof (cases "validate_conditional_syntax ?s (i + 1)")
        case (Inl e)
        then have "transform_loop M lines i out = (\<lambda>used. (?err e, used))"
          using True C by (intro ext) (auto simp: unfold)
        then show ?thesis by (simp add: adds_only_return)
      next
        case (Inr ok)
        show ?thesis
        proof (cases ok)
          case False
          have "transform_loop M lines i out = transform_loop M lines (i + 1) out"
            using True C Inr False by (intro ext) (auto simp: unfold)
          then show ?thesis using ih by simp
        next
          case ok: True
          let ?block = "\<lambda>transformed.
              if endswith ?s ''{''
              then process_conditional_block M lines (i + 1) (out @ transformed) ''    ''
              else process_python_indented_block M lines (i + 1) (out @ transformed) ?line"
          let ?after = "\<lambda>r2. case r2 of
              Inl e \<Rightarrow> (\<lambda>used2. (?err e, used2))
            | Inr p \<Rightarrow> transform_loop M lines (fst p) (snd p)"
          let ?g = "\<lambda>r. case r of
              Inl e \<Rightarrow> (\<lambda>used1. (?err e, used1))
            | Inr transformed \<Rightarrow>
                (\<lambda>used1. case ?block transformed used1 of (r2, used2) \<Rightarrow> ?after r2 used2)"
          have pcb: "process_conditional_block M lines j out' ind
                     = conditional_block_loop M lines j 1 out' ind" for j out' ind
            by (intro ext) (simp add: process_conditional_block_def)
          have block: "adds_only (?block t)" for t
            by (simp add: pcb adds_only_conditional_block_loop adds_only_indented_block)
          have after: "adds_only (?after r2)" if "r2 = fst (?block t {})" for r2 t
          proof (cases r2)
            case (Inl e)
            then show ?thesis by (simp add: adds_only_return)
          next
            case (Inr p)
            then have "?block t {} = (Inr (fst p, snd p), snd (?block t {}))"
              using that by (metis prod.collapse)
            then have "(if endswith ?s ''{''
                  then process_conditional_block M lines (i + 1) (out @ t) ''    '' {}
                  else process_python_indented_block M lines (i + 1) (out @ t) ?line {})
                 = (Inr (fst p, snd p), snd (?block t {}))"
              by (simp split: if_splits)
            then have "i + 1 \<le> fst p" by (rule block_processor_advances)
            then have "length lines - fst p < length lines - i" using True by simp
            then show ?thesis using Inr less by simp
          qed
          have "adds_only (\<lambda>used. case transform_line M ?line used of
                  (r, used1) \<Rightarrow> ?g r used1)"
          proof (rule adds_only_bind[OF adds_only_transform_line])
            fix r show "adds_only (?g r)"
            proof (cases r)
              case (Inl e)
              then show ?thesis by (simp add: adds_only_return)
            next
              case (Inr t)
              have "adds_only (\<lambda>used1. case ?block t used1 of
                      (r2, used2) \<Rightarrow> ?after r2 used2)"
                by (rule adds_only_bind_result[OF block]) (rule after)
              then show ?thesis unfolding Inr by (simp only: sum.case)
            qed
          qed
          moreover have "transform_loop M lines i out
                = (\<lambda>used. case transform_line M ?line used of (r, used1) \<Rightarrow> ?g r used1)"
            using True C Inr ok
            by (intro ext) (auto simp: unfold split: prod.splits sum.splits)
          ultimately show ?thesis by simp
        qed
      qed
    next
      case nC: False
      let ?g = "\<lambda>r. case r of
          Inl e \<Rightarrow> (\<lambda>used1. (?err e, used1))
        | Inr transformed \<Rightarrow> transform_loop M lines (i + 1) (out @ transformed)"
      have "adds_only (\<lambda>used. case transform_line M ?line used of (r, used1) \<Rightarrow> ?g r used1)"
      proof (rule adds_only_bind[OF adds_only_transform_line])
        fix r show "adds_only (?g r)"
          by (cases r) (simp_all add: adds_only_return ih)
      qed
      moreover have "transform_loop M lines i out
            = (\<lambda>used. case transform_line M ?line used of (r, used1) \<Rightarrow> ?g r used1)"
        using True nC
        by (intro ext) (auto simp: unfold split: prod.splits sum.splits)
      ultimately show ?thesis by simp
    qed
  qed
qed

section \<open>Properties of \<open>transform_file\<close>\<close>

lemma transform_file_helpers:
  "snd (transform_file M lines lang used) = used \<union> snd (transform_file M lines lang {})"
  "finite (snd (transform_file M lines lang {}))"
proof -
  from adds_only_transform_loop[of M lines 0 "[]"]
  obtain r d where "finite d" and f: "\<forall>used. transform_loop M lines 0 [] used = (r, used \<union> d)"
    unfolding adds_only_def by blast
  have "snd (transform_file M lines lang u) = u \<union> d" for u
    by (cases r) (simp_all add: transform_file_def f)
  then show "snd (transform_file M lines lang used) = used \<union> snd (transform_file M lines lang {})"
    and "finite (snd (transform_file M lines lang {}))"
    using \<open>finite d\<close> by simp_all
qed

lemma transform_file_text:
  assumes "transform_file M lines lang used = (Inr text, used')"
  shows "\<exists>output_lines. text = import_header lang used' @ join [CHR 0x0A] output_lines"
  using assms by (auto simp: transform_file_def split: prod.splits sum.splits)

lemmas loop_unfold = transform_loop.simps process_python_indented_block.simps
  conditional_block_loop.simps

lemma example_import_os:
  "transform_file example_matchers [''~kinda import os''] ''python'' {}
   = (Inr (''from kinda.langs.python.runtime.fuzzy import kinda_import'' @ [CHR 0x0A, CHR 0x0A]
           @ ''os = kinda_import('' @ [CHR 0x27] @ ''os'' @ [CHR 0x27] @ '')''),
      {''kinda_import''})"
  by (simp add: transform_file_def loop_unfold transform_line_def header_match_def
        example_defs str_defs construct_code_def truthy_def fmt_def last_component_def
        validate_conditional_syntax_def import_header_def)

lemma example_comment_after_import:
  "transform_file example_matchers [''# Test kinda imports''] ''python'' {''kinda_import''}
   = (Inr (''from kinda.langs.python.runtime.fuzzy import kinda_import'' @ [CHR 0x0A, CHR 0x0A]
           @ ''# Test kinda imports''),
      {''kinda_import''})"
  by (simp add: transform_file_def loop_unfold transform_line_def
        str_defs import_header_def)

lemma example_comment_alone:
  "transform_file example_matchers [''# Test kinda imports''] ''python'' {}
   = (Inr ''# Test kinda imports'', {})"
  by (simp add: transform_file_def loop_unfold transform_line_def
        str_defs import_header_def)

text \<open>
  Claim C2, as amended. The set of used helpers is one set for the whole process, and
  \<open>transform_file\<close> never empties it. Of two calls in sequence, each adds the helpers
  that its own input refers to to the set as it finds it (the first also when it
  raises), and the import header of the second call's output names, sorted, every
  helper of the set the second call ends with: those of its own input together with
  all helpers registered before, those of the first call included.
\<close>

theorem used_helpers_accumulate_across_calls:
  assumes start: "finite used0"
    and first: "transform_file M lines1 lang used0 = (result1, used1)"
    and second: "transform_file M lines2 lang used1 = (Inr text2, used2)"
  shows "used1 = used0 \<union> snd (transform_file M lines1 lang {})
       \<and> used2 = used1 \<union> snd (transform_file M lines2 lang {})
       \<and> (\<exists>output_lines. text2 = import_header lang used2 @ join [CHR 0x0A] output_lines)
       \<and> (used2 \<noteq> {} \<longrightarrow>
            import_header lang used2 =
              ''from kinda.langs.'' @ lang @ ''.runtime.fuzzy import ''
                @ join '', '' (sorted_list_of_set used2) @ [CHR 0x0A, CHR 0x0A])
       \<and> set (sorted_list_of_set used2) = used2"
proof -
  have u1: "used1 = used0 \<union> snd (transform_file M lines1 lang {})"
    using transform_file_helpers(1)[of M lines1 lang used0] first by simp
  have u2: "used2 = used1 \<union> snd (transform_file M lines2 lang {})"
    using transform_file_helpers(1)[of M lines2 lang used1] second by simp
  have "finite used2"
    using start u1 u2 transform_file_helpers(2) by simp
  then have "set (sorted_list_of_set used2) = used2" by simp
  moreover have "used2 \<noteq> {} \<longrightarrow>
        import_header lang used2 =
          ''from kinda.langs.'' @ lang @ ''.runtime.fuzzy import ''
            @ join '', '' (sorted_list_of_set used2) @ [CHR 0x0A, CHR 0x0A]"
    by (simp add: import_header_def)
  ultimately show ?thesis
    using u1 u2 transform_file_text[OF second] by blast
qed

theorem used_helpers_accumulate_across_calls_witness:
  "transform_file example_matchers [''~kinda import os''] ''python'' {}
   = (Inr (''from kinda.langs.python.runtime.fuzzy import kinda_import'' @ [CHR 0x0A, CHR 0x0A]
           @ ''os = kinda_import('' @ [CHR 0x27] @ ''os'' @ [CHR 0x27] @ '')''),
      {''kinda_import''})
   \<and> transform_file example_matchers [''# Test kinda imports''] ''python'' {''kinda_import''}
   = (Inr (''from kinda.langs.python.runtime.fuzzy import kinda_import'' @ [CHR 0x0A, CHR 0x0A]
           @ ''# Test kinda imports''),
      {''kinda_import''})
   \<and> {''kinda_import''} = {} \<union> snd (transform_file example_matchers [''~kinda import os'']
                                     ''python'' {})"
  using used_helpers_accumulate_across_calls
    [of "{}" example_matchers "[''~kinda import os'']" "''python''"
        "Inr (''from kinda.langs.python.runtime.fuzzy import kinda_import'' @ [CHR 0x0A, CHR 0x0A]
           @ ''os = kinda_import('' @ [CHR 0x27] @ ''os'' @ [CHR 0x27] @ '')'')"
        "{''kinda_import''}" "[''# Test kinda imports'']"
        "''from kinda.langs.python.runtime.fuzzy import kinda_import'' @ [CHR 0x0A, CHR 0x0A]
           @ ''# Test kinda imports''" "{''kinda_import''}"]
    example_import_os example_comment_after_import
  by simp

text \<open>
  After a file that uses \<open>~kinda import\<close>, a file of one comment line gets a header
  that imports \<open>kinda_import\<close>, although transformed alone it has no header at all.
\<close>

theorem second_header_names_earlier_helper:
  "transform_file example_matchers [''~kinda import os''] ''python'' {}
   = (Inr (''from kinda.langs.python.runtime.fuzzy import kinda_import'' @ [CHR 0x0A, CHR 0x0A]
           @ ''os = kinda_import('' @ [CHR 0x27] @ ''os'' @ [CHR 0x27] @ '')''),
      {''kinda_import''})
   \<and> transform_file example_matchers [''# Test kinda imports''] ''python'' {''kinda_import''}
   = (Inr (''from kinda.langs.python.runtime.fuzzy import kinda_import'' @ [CHR 0x0A, CHR 0x0A]
           @ ''# Test kinda imports''),
      {''kinda_import''})
   \<and> transform_file example_matchers [''# Test kinda imports''] ''python'' {}
   = (Inr ''# Test kinda imports'', {})"
  using example_import_os example_comment_after_import example_comment_alone by simp

section \<open>Indentation-delimited blocks\<close>











section \<open>Properties of direct execution\<close>

text \<open>
  What Python's \<open>eval\<close> does on the expressions of the examples below. The assignment
  expression of \<open>(y := 1) / 0\<close> stores 1 under \<open>y\<close> in the namespace it is evaluated
  in, which is \<open>env\<close>, before the division raises \<open>ZeroDivisionError\<close>; \<open>1 / 0\<close>
  raises and stores nothing; \<open>41\<close> is the integer 41. The table has every other
  expression raise.
\<close>

definition example_eval :: "unit evaluator" where
  "example_eval e env =
     (if e = ''(y := 1) / 0'' then (None, env(''y'' \<mapsto> PyInt 1))
      else if e = ''41'' then (Some (PyInt 41), env)
      else (None, env))"

text \<open>
  Claim C10, as amended. When \<open>evaluate\<close> returns \<open>None\<close>, \<open>kinda_assign\<close> stores nothing
  itself: the environment after the call is the environment as the evaluation of the
  expression left it. That is the environment before the call when the expression is not
  a string or contains one of the blocked keywords (nothing is evaluated then), and when
  the evaluation itself stored nothing.
\<close>

theorem kinda_assign_after_failed_evaluation:
  assumes "fst (evaluate py_eval expr env) = PyNone"
  shows "kinda_assign py_eval float_add choice var expr env = snd (evaluate py_eval expr env)
       \<and> ((case expr of PyStr e \<Rightarrow> any_in dangerous_keywords e | _ \<Rightarrow> True) \<longrightarrow>
            kinda_assign py_eval float_add choice var expr env = env)
       \<and> (expr = PyStr e \<and> snd (py_eval e env) = env \<longrightarrow>
            kinda_assign py_eval float_add choice var expr env = env)"
proof (intro conjI impI)
  show first: "kinda_assign py_eval float_add choice var expr env
               = snd (evaluate py_eval expr env)"
    using assms by (auto simp: kinda_assign_def split: prod.splits)
  {
    assume "case expr of PyStr e \<Rightarrow> any_in dangerous_keywords e | _ \<Rightarrow> True"
    then have "snd (evaluate py_eval expr env) = env"
      by (cases expr) (simp_all add: evaluate_def)
    with first show "kinda_assign py_eval float_add choice var expr env = env" by simp
  }
  {
    assume "expr = PyStr e \<and> snd (py_eval e env) = env"
    then have "snd (evaluate py_eval expr env) = env"
      by (auto simp: evaluate_def split: prod.splits option.splits)
    with first show "kinda_assign py_eval float_add choice var expr env = env" by simp
  }
qed

theorem kinda_assign_after_failed_evaluation_witness:
  "kinda_assign example_eval (\<lambda>x n. x) 1 ''x'' (PyStr ''import os'') Map.empty = Map.empty
   \<and> kinda_assign example_eval (\<lambda>x n. x) 1 ''x'' (PyStr ''1 / 0'') Map.empty = Map.empty
   \<and> kinda_assign example_eval (\<lambda>x n. x) 1 ''x'' (PyStr ''41'') Map.empty ''x''
       = Some (PyInt 42)"
  using kinda_assign_after_failed_evaluation
          [of example_eval "PyStr ''import os''" Map.empty "\<lambda>x n. x" 1 "''x''" "[]"]
        kinda_assign_after_failed_evaluation
          [of example_eval "PyStr ''1 / 0''" Map.empty "\<lambda>x n. x" 1 "''x''" "''1 / 0''"]
  by (simp add: evaluate_def example_eval_def dangerous_keywords_def any_in_def startswith_def
        kinda_assign_def fuzzed_def)

text \<open>
  Claim C10 as stated does not hold: the evaluation of \<open>(y := 1) / 0\<close> fails, so
  \<open>kinda_assign\<close> skips the assignment to \<open>x\<close>, and yet the environment, empty before the
  call, has a binding for \<open>y\<close> after it.
\<close>

theorem failed_evaluation_can_bind:
  "fst (evaluate example_eval (PyStr ''(y := 1) / 0'') Map.empty) = PyNone
   \<and> kinda_assign example_eval (\<lambda>x n. x) 0 ''x'' (PyStr ''(y := 1) / 0'') Map.empty ''y''
       = Some (PyInt 1)
   \<and> (Map.empty :: unit env) ''y'' = None"
  by (simp add: evaluate_def example_eval_def dangerous_keywords_def any_in_def startswith_def
        kinda_assign_def)

section \<open>The runtime helper \<open>kinda_binary\<close>\<close>

text \<open>
  The body of the runtime helper \<open>kinda_binary\<close>, which \<open>constructs.py\<close> holds as the
  text written into the generated runtime module. The arithmetic of the weights is a
  parameter: addition, subtraction, absolute value, division (nothing when it raises
  \<open>ZeroDivisionError\<close>), the comparison \<open><\<close>, and the constants \<open>1.0\<close> and \<open>0.01\<close>.
\<close>

record 'f arith =
  f_add :: "'f \<Rightarrow> 'f \<Rightarrow> 'f"
  f_sub :: "'f \<Rightarrow> 'f \<Rightarrow> 'f"
  f_abs :: "'f \<Rightarrow> 'f"
  f_div :: "'f \<Rightarrow> 'f \<Rightarrow> 'f option"
  f_less :: "'f \<Rightarrow> 'f \<Rightarrow> bool"
  f_one :: 'f
  f_eps :: 'f

text \<open>
  The weights that the draw is compared with. An argument that is \<open>None\<close> makes the
  helper take all three weights from \<open>chaos_binary_probabilities()\<close> of
  \<open>kinda.personality\<close>, which is not among the sources: \<open>chaos\<close> is what that call
  returns, or nothing when it raises. The result is nothing when an exception is raised
  inside the \<open>try\<close>.
\<close>

definition binary_weights ::
  "'f arith \<Rightarrow> ('f \<times> 'f \<times> 'f) option \<Rightarrow> 'f option \<Rightarrow> 'f option \<Rightarrow> 'f option
     \<Rightarrow> ('f \<times> 'f \<times> 'f) option" where
  "binary_weights A chaos pos_prob neg_prob neutral_prob =
     (case (case (pos_prob, neg_prob, neutral_prob) of
              (Some p, Some n, Some z) \<Rightarrow> Some (p, n, z)
            | _ \<Rightarrow> chaos) of
        None \<Rightarrow> None
      | Some (p, n, z) \<Rightarrow>
          (let total_prob = f_add A (f_add A p n) z in
           if f_less A (f_eps A) (f_abs A (f_sub A total_prob (f_one A))) then
             (case f_div A p total_prob of
                None \<Rightarrow> None
              | Some p1 \<Rightarrow>
                  (case f_div A n total_prob of
                     None \<Rightarrow> None
                   | Some n1 \<Rightarrow>
                       (case f_div A z total_prob of
                          None \<Rightarrow> None
                        | Some z1 \<Rightarrow> Some (p1, n1, z1))))
           else Some (p, n, z)))"

text \<open>
  \<open>kinda_binary\<close>: \<open>rand\<close> is the number that \<open>random.random()\<close> draws and \<open>choice\<close> the
  one that \<open>random.choice([-1, 0, 1])\<close> draws in the handler of the exception. The result
  comes with the argument \<open>failed\<close> that \<open>update_chaos_state\<close> is called with.
\<close>

definition kinda_binary ::
  "'f arith \<Rightarrow> ('f \<times> 'f \<times> 'f) option \<Rightarrow> 'f \<Rightarrow> int \<Rightarrow> 'f option \<Rightarrow> 'f option \<Rightarrow> 'f option
     \<Rightarrow> int \<times> bool" where
  "kinda_binary A chaos rand choice pos_prob neg_prob neutral_prob =
     (case binary_weights A chaos pos_prob neg_prob neutral_prob of
        None \<Rightarrow> (choice, True)
      | Some (p, n, z) \<Rightarrow>
          ((if f_less A rand p then 1
            else if f_less A rand (f_add A p n) then - 1
            else 0), False))"


section \<open>Properties of \<open>kinda_binary\<close>\<close>




end
